theory Spec2Isabelle
  imports
    Main
    "HOL-Library.Char_ord"
    "HOL-Library.List_Lexorder"
    "HOL-Library.Option_ord"
    "HOL-Library.Multiset"
    "HOL-Library.Sublist"
begin

chapter \<open>Grant advisor: match cache, matching pipeline, grant synchronisation, rate limiter\<close>

text \<open>
  A shallow embedding of the cache-key derivation, the match cache, the matching pipeline
  (\<^verbatim>\<open>generateCacheKey\<close>, \<^verbatim>\<open>checkCache\<close>, \<^verbatim>\<open>saveToCache\<close>,
  \<^verbatim>\<open>invalidateCacheBeforeSync\<close>, \<^verbatim>\<open>parseMatchingResponse\<close>, \<^verbatim>\<open>matchFunders\<close>), of the
  grant phase of the sync route (\<^verbatim>\<open>syncGrantsForFunders\<close>) and of the rate limiter of the
  client of the grant-data service (\<^verbatim>\<open>RateLimiter\<close>).

  Conventions. A JavaScript string is a \<^typ>\<open>string\<close>; an optional or nullable value is an
  \<^typ>\<open>'a option\<close>; a thrown exception is the \<open>Inl\<close> branch of a sum. Libraries that are not
  part of the repository (the SHA-256 digest, \<^verbatim>\<open>JSON.parse\<close>, \<^verbatim>\<open>new Date(string)\<close>, the
  scoring service) are parameters of the functions that call them. Tables of the store are
  lists of rows, and every store operation has its failure modes as an explicit input.
\<close>

section \<open>Data model\<close>

text \<open>
  The fields of \<^verbatim>\<open>CharityProfile\<close> that the cache key and the pipeline read. The fields
  of a classification and of a region are strings, as the interface declares them.
\<close>

record classification =
  classification_code :: string
  classification_type :: string
  classification_desc :: string

record region_entry =
  region :: string

text \<open>
  The interface declares \<^verbatim>\<open>latest_income\<close>, \<^verbatim>\<open>who_what_where\<close> and
  \<^verbatim>\<open>CharityAoORegion\<close> as always present, but the profile arrives in a request body and
  the code guards each of them (\<^verbatim>\<open>|| 0\<close>, \<^verbatim>\<open>?.\<close>), so they are optional here.
\<close>

record CharityProfile =
  reg_charity_number :: int
  charity_name :: string
  latest_income :: "int option"
  who_what_where :: "classification list option"
  CharityAoORegion :: "region_entry list option"

section \<open>Cache key\<close>

text \<open>
  \<^verbatim>\<open>
  function getIncomeBucket(income: number): string {
    if (income < 10000) return "micro";
    if (income < 100000) return "small";
    if (income < 500000) return "medium";
    if (income < 1000000) return "large";
    if (income < 5000000) return "major";
    return "national";
  }
  \<close>
\<close>

definition getIncomeBucket :: "int \<Rightarrow> string" where
  "getIncomeBucket income =
     (if income < 10000 then ''micro''
      else if income < 100000 then ''small''
      else if income < 500000 then ''medium''
      else if income < 1000000 then ''large''
      else if income < 5000000 then ''major''
      else ''national'')"

text \<open>\<^verbatim>\<open>charityProfile.latest_income || 0\<close>: an absent income counts as 0.\<close>

definition income_or_zero :: "int option \<Rightarrow> int" where
  "income_or_zero i = (case i of None \<Rightarrow> 0 | Some n \<Rightarrow> n)"

text \<open>\<^verbatim>\<open>Array.prototype.join(",")\<close>.\<close>

fun join_comma :: "string list \<Rightarrow> string" where
  "join_comma [] = []"
| "join_comma [x] = x"
| "join_comma (x # y # ys) = x @ CHR '','' # join_comma (y # ys)"

text \<open>
  \<^verbatim>\<open>who_what_where?.filter((w) => w.classification_type === T).map((w) => w.classification_code)\<close>;
  an absent list yields \<^verbatim>\<open>undefined\<close>, which \<^verbatim>\<open>|| ""\<close> turns into the empty string, as it
  does the empty join.
\<close>

definition codes_of_type :: "string \<Rightarrow> CharityProfile \<Rightarrow> string list" where
  "codes_of_type T p =
     (case who_what_where p of
        None \<Rightarrow> []
      | Some ws \<Rightarrow> map classification_code (filter (\<lambda>w. classification_type w = T) ws))"

definition region_names :: "CharityProfile \<Rightarrow> string list" where
  "region_names p = (case CharityAoORegion p of None \<Rightarrow> [] | Some rs \<Rightarrow> map region rs)"

text \<open>
  \<^verbatim>\<open>.sort().join(",")\<close>. The default sort of JavaScript orders strings by their code
  units; \<^const>\<open>sort\<close> on \<^typ>\<open>string\<close> orders them by their characters. Both are total
  orders of the strings, and they agree on ASCII text; the properties below hold for any
  total order.
\<close>

definition sorted_joined :: "string list \<Rightarrow> string" where
  "sorted_joined xs = join_comma (sort xs)"

record charityDetails =
  cd_reg_charity_number :: int
  cd_income_bucket :: string
  cd_activities :: string
  cd_beneficiaries :: string
  cd_regions :: string

definition charity_details :: "CharityProfile \<Rightarrow> charityDetails" where
  "charity_details p =
     \<lparr> cd_reg_charity_number = reg_charity_number p,
       cd_income_bucket = getIncomeBucket (income_or_zero (latest_income p)),
       cd_activities = sorted_joined (codes_of_type ''What'' p),
       cd_beneficiaries = sorted_joined (codes_of_type ''Who'' p),
       cd_regions = sorted_joined (region_names p) \<rparr>"

subsection \<open>\<^verbatim>\<open>JSON.stringify\<close> of the hashed object\<close>

definition hex_digit :: "nat \<Rightarrow> char" where
  "hex_digit n = ''0123456789abcdef'' ! (n mod 16)"

text \<open>
  The escapes of \<^verbatim>\<open>JSON.stringify\<close>: the quote, the backslash, the five short escapes and
  \<^verbatim>\<open>\u00xx\<close> for every other control character.
\<close>

definition json_escape :: "char \<Rightarrow> string" where
  "json_escape c =
     (if c = CHR 0x22 then [CHR 0x5C, CHR 0x22]
      else if c = CHR 0x5C then [CHR 0x5C, CHR 0x5C]
      else if c = CHR 0x08 then [CHR 0x5C, CHR ''b'']
      else if c = CHR 0x0C then [CHR 0x5C, CHR ''f'']
      else if c = CHR 0x0A then [CHR 0x5C, CHR ''n'']
      else if c = CHR 0x0D then [CHR 0x5C, CHR ''r'']
      else if c = CHR 0x09 then [CHR 0x5C, CHR ''t'']
      else if (of_char c :: nat) < 32 then
        [CHR 0x5C, CHR ''u'', CHR ''0'', CHR ''0'',
         hex_digit (of_char c div 16), hex_digit (of_char c mod 16)]
      else [c])"

definition json_string :: "string \<Rightarrow> string" where
  "json_string s = CHR 0x22 # concat (map json_escape s) @ [CHR 0x22]"

fun digits :: "nat \<Rightarrow> string" where
  "digits n =
     (if n < 10 then [''0123456789'' ! n]
      else digits (n div 10) @ [''0123456789'' ! (n mod 10)])"

declare digits.simps [simp del]

definition json_number :: "int \<Rightarrow> string" where
  "json_number i = (if i < 0 then CHR ''-'' # digits (nat (- i)) else digits (nat i))"

text \<open>
  \<^verbatim>\<open>JSON.stringify({ charityDetails, funderIds: sortedFunderIds })\<close>, the keys in the order
  the object literals give them.
\<close>

definition dataToHash :: "CharityProfile \<Rightarrow> string list \<Rightarrow> string" where
  \<open>dataToHash p funderOrgIds =
     (let d = charity_details p in
      ''{"charityDetails":{"reg_charity_number":'' @ json_number (cd_reg_charity_number d)
      @ '',"income_bucket":'' @ json_string (cd_income_bucket d)
      @ '',"activities":'' @ json_string (cd_activities d)
      @ '',"beneficiaries":'' @ json_string (cd_beneficiaries d)
      @ '',"regions":'' @ json_string (cd_regions d)
      @ ''},"funderIds":'' @ json_string (sorted_joined funderOrgIds)
      @ ''}'')\<close>

text \<open>
  \<^verbatim>\<open>crypto.createHash("sha256").update(dataToHash).digest("hex").substring(0, 32)\<close>.
  The digest is the library's; it is the parameter \<open>sha256_hex\<close>.
\<close>

definition generateCacheKey :: "(string \<Rightarrow> string) \<Rightarrow> CharityProfile \<Rightarrow> string list \<Rightarrow> string" where
  "generateCacheKey sha256_hex p funderOrgIds = take 32 (sha256_hex (dataToHash p funderOrgIds))"

text \<open>
  A reader of one escaped character, and the value of a hexadecimal digit: they are used
  only to show that the encoding of \<^const>\<open>json_string\<close> is unambiguous.
\<close>

definition hex_value :: "char \<Rightarrow> nat" where
  "hex_value c = (if of_char c < (58::nat) then of_char c - 48 else of_char c - 87)"

definition json_unescape :: "string \<Rightarrow> (char \<times> string) option" where
  "json_unescape s =
     (case s of
        [] \<Rightarrow> None
      | c # cs \<Rightarrow>
          if c \<noteq> CHR 0x5C then Some (c, cs)
          else (case cs of
                  [] \<Rightarrow> None
                | t # ts \<Rightarrow>
                    if t = CHR ''b'' then Some (CHR 0x08, ts)
                    else if t = CHR ''f'' then Some (CHR 0x0C, ts)
                    else if t = CHR ''n'' then Some (CHR 0x0A, ts)
                    else if t = CHR ''r'' then Some (CHR 0x0D, ts)
                    else if t = CHR ''t'' then Some (CHR 0x09, ts)
                    else if t = CHR ''u'' then
                      (case ts of
                         a # b # h # l # us \<Rightarrow> Some (char_of (16 * hex_value h + hex_value l), us)
                       | _ \<Rightarrow> None)
                    else Some (t, ts)))"

text \<open>
  A classification code that the comma-joined list can hold without ambiguity: not empty,
  and without a comma.
\<close>

definition valid_code :: "string \<Rightarrow> bool" where
  "valid_code c = (c \<noteq> [] \<and> CHR '','' \<notin> set c)"

section \<open>The store\<close>

text \<open>
  How a call of the store client can fail: it resolves with an error in its result, or its
  promise is rejected.
\<close>

datatype fault = NoFault | ReturnsError string | Throws string

record FunderStats =
  aggregate_grants :: nat

record Organisation =
  org_id :: string
  name :: string
  is_funder :: bool
  is_recipient :: bool
  funder_stats :: "FunderStats option"
  recipient_stats :: "FunderStats option"
  last_grant_made_date :: "string option"

text \<open>
  A row of the grants table. The programme, classification, location and raw-payload columns
  are written by the sync and read by no function modelled here; they are left out.
\<close>

record Grant =
  grant_id :: string
  title :: "string option"
  description :: "string option"
  amount_awarded :: "int option"
  currency :: string
  award_date :: "string option"
  funder_org_id :: "string option"
  recipient_org_id :: "string option"

record sync_log =
  sync_type :: string
  status :: string
  completed_at :: "int option"

record ScoreBreakdown =
  mission_alignment :: int
  geographic_fit :: int
  size_compatibility :: int
  activity_level :: int
  historical_precedent :: int

record SimilarCharityExample =
  similar_charity_name :: string
  grant_amount :: int
  similar_award_date :: string
  grant_purpose :: string

text \<open>
  \<^verbatim>\<open>match_score\<close> is a JavaScript number; the scores are integers from 0 to 100, and the
  model takes them as integers.
\<close>

record FunderMatch =
  funder :: Organisation
  match_score :: int
  score_breakdown :: ScoreBreakdown
  reasoning :: string
  similar_charities_funded :: "SimilarCharityExample list"

text \<open>
  A row of \<^verbatim>\<open>match_cache\<close>. Timestamps are points on the integer time line; the column
  \<^verbatim>\<open>last_sync_at\<close> is nullable.
\<close>

record cache_row =
  charity_number :: int
  cache_key :: string
  cached_charity_name :: string
  matches :: "FunderMatch list"
  funder_count :: nat
  last_sync_at :: "int option"
  created_at :: int
  expires_at :: int

record store =
  organisations :: "Organisation list"
  grants :: "Grant list"
  sync_logs :: "sync_log list"
  match_cache :: "cache_row list"

text \<open>
  \<^verbatim>\<open>.order(column, { ascending: false })\<close>: descending, rows whose key is null first (the
  default of the database for a descending order). The order among equal keys is not
  specified by the database; the model takes the reverse of the stable ascending sort.
\<close>

definition order_desc :: "('a \<Rightarrow> 'k::linorder option) \<Rightarrow> 'a list \<Rightarrow> 'a list" where
  "order_desc k xs =
     filter (\<lambda>x. k x = None) xs @ rev (sort_key k (filter (\<lambda>x. k x \<noteq> None) xs))"

text \<open>
  \<^verbatim>\<open>
  from("sync_logs").select("completed_at").eq("status", "completed")
    .order("completed_at", { ascending: false }).limit(1).single()
  \<close>
  and then \<^verbatim>\<open>lastSync?.completed_at || null\<close>.
\<close>

definition last_completed_sync :: "sync_log list \<Rightarrow> int option" where
  "last_completed_sync logs =
     (case order_desc completed_at (filter (\<lambda>l. status l = ''completed'') logs) of
        [] \<Rightarrow> None
      | l # _ \<Rightarrow> completed_at l)"

section \<open>Match cache\<close>

definition CACHE_TTL_DAYS :: int where
  "CACHE_TTL_DAYS = 7"

definition ms_per_day :: int where
  "ms_per_day = 86400000"

record CacheResult =
  hit :: bool
  result_matches :: "FunderMatch list option"
  cacheKey :: string
  createdAt :: "int option"

text \<open>
  \<^verbatim>\<open>
  async function checkCache(charityNumber, cacheKey) {
    try {
      const { data, error } = await supabase.from("match_cache")
        .select("matches, created_at, expires_at")
        .eq("charity_number", charityNumber).eq("cache_key", cacheKey)
        .gt("expires_at", new Date().toISOString()).single();
      if (error || !data) { return { hit: false, cacheKey }; }
      return { hit: true, matches: data.matches, cacheKey, createdAt: data.created_at };
    } catch { return { hit: false, cacheKey }; }
  }
  \<close>
  \<^verbatim>\<open>.single()\<close> reports an error unless exactly one row is selected.
\<close>

definition checkCache :: "fault \<Rightarrow> int \<Rightarrow> cache_row list \<Rightarrow> int \<Rightarrow> string \<Rightarrow> CacheResult" where
  "checkCache flt now rows charityNumber key =
     (case flt of
        NoFault \<Rightarrow>
          (case filter (\<lambda>r. charity_number r = charityNumber \<and> cache_key r = key
                            \<and> now < expires_at r) rows of
             [r] \<Rightarrow> \<lparr> hit = True, result_matches = Some (matches r), cacheKey = key,
                      createdAt = Some (created_at r) \<rparr>
           | _ \<Rightarrow> \<lparr> hit = False, result_matches = None, cacheKey = key, createdAt = None \<rparr>)
      | _ \<Rightarrow> \<lparr> hit = False, result_matches = None, cacheKey = key, createdAt = None \<rparr>)"

text \<open>
  \<^verbatim>\<open>upsert(row, { onConflict: "charity_number,cache_key" })\<close>: a row with the same pair is
  replaced. The table also declares \<^verbatim>\<open>cache_key\<close> unique by itself, so a row of another
  charity with the same key makes the insert fail; the client returns that error, which
  \<^verbatim>\<open>saveToCache\<close> does not read.
\<close>

definition upsert_cache :: "cache_row \<Rightarrow> cache_row list \<Rightarrow> cache_row list" where
  "upsert_cache row rows =
     (if \<exists>r \<in> set rows. charity_number r = charity_number row \<and> cache_key r = cache_key row then
        map (\<lambda>r. if charity_number r = charity_number row \<and> cache_key r = cache_key row
                 then row else r) rows
      else if \<exists>r \<in> set rows. cache_key r = cache_key row then rows
      else rows @ [row])"

text \<open>
  \<^verbatim>\<open>
  async function saveToCache(charityProfile, cacheKey, matches) {
    try {
      const { data: lastSync } = await supabase.from("sync_logs") ... .single();
      const expiresAt = new Date();
      expiresAt.setDate(expiresAt.getDate() + CACHE_TTL_DAYS);
      await supabase.from("match_cache").upsert({
          charity_number: charityProfile.reg_charity_number, cache_key: cacheKey,
          charity_name: charityProfile.charity_name, matches: matches,
          funder_count: matches.length, last_sync_at: lastSync?.completed_at || null,
          created_at: new Date().toISOString(), expires_at: expiresAt.toISOString(),
        }, { onConflict: "charity_number,cache_key" });
    } catch (error) { console.error("Failed to save to cache:", error); }
  }
  \<close>
  The first argument is the fault of the sync-log query, the second that of the upsert.
  Nothing is thrown and nothing is returned: the result is the cache table afterwards.
\<close>

definition saveToCache ::
  "fault \<Rightarrow> fault \<Rightarrow> int \<Rightarrow> store \<Rightarrow> CharityProfile \<Rightarrow> string \<Rightarrow> FunderMatch list \<Rightarrow> store" where
  "saveToCache log_fault write_fault now st p key ms =
     (case log_fault of
        Throws _ \<Rightarrow> st
      | _ \<Rightarrow>
          (let lastSync = (if log_fault = NoFault then last_completed_sync (sync_logs st) else None);
               row = \<lparr> charity_number = reg_charity_number p, cache_key = key,
                       cached_charity_name = charity_name p, matches = ms,
                       funder_count = length ms, last_sync_at = lastSync,
                       created_at = now, expires_at = now + CACHE_TTL_DAYS * ms_per_day \<rparr>
           in case write_fault of
                NoFault \<Rightarrow> st\<lparr>match_cache := upsert_cache row (match_cache st)\<rparr>
              | _ \<Rightarrow> st))"

text \<open>
  \<^verbatim>\<open>
  export async function invalidateCacheBeforeSync(syncDate: string): Promise<number> {
    try {
      const { data, error } = await supabase.from("match_cache").delete()
        .lt("last_sync_at", syncDate).select("id");
      if (error) { console.error("Failed to invalidate cache:", error); return 0; }
      return data?.length || 0;
    } catch { return 0; }
  }
  \<close>
  The comparison is the database's: it is not true of a row whose \<^verbatim>\<open>last_sync_at\<close>
  is null. The result is the number returned and the table afterwards.
\<close>

definition superseded :: "int \<Rightarrow> cache_row \<Rightarrow> bool" where
  "superseded syncDate r = (case last_sync_at r of None \<Rightarrow> False | Some t \<Rightarrow> t < syncDate)"

definition invalidateCacheBeforeSync :: "fault \<Rightarrow> cache_row list \<Rightarrow> int \<Rightarrow> nat \<times> cache_row list" where
  "invalidateCacheBeforeSync flt rows syncDate =
     (case flt of
        NoFault \<Rightarrow> (length (filter (superseded syncDate) rows),
                    filter (\<lambda>r. \<not> superseded syncDate r) rows)
      | _ \<Rightarrow> (0, rows))"

section \<open>Matching pipeline\<close>

record FunderWithGrants =
  fwg_funder :: Organisation
  fwg_grants :: "Grant list"

record MatchResponseItem =
  item_funder_org_id :: string
  item_match_score :: int
  item_score_breakdown :: ScoreBreakdown
  item_reasoning :: string
  item_similar_charities_funded :: "SimilarCharityExample list option"

datatype content_block = TextBlock string | OtherBlock

text \<open>
  What \<^verbatim>\<open>matchFunders\<close> can throw: the messages of its own \<^verbatim>\<open>throw\<close> statements, and
  the exceptions of the store client and of the scoring client, which it rethrows.
\<close>

datatype match_error =
    FailedToFetchFunders string
  | NoFundersFound
  | StoreThrew string
  | ScoringFailed string
  | NoTextContent
  | FailedToParse

text \<open>
  The calls \<^verbatim>\<open>matchFunders\<close> makes, in the order it makes them. \<open>CallScoring\<close> stands for
  \<^verbatim>\<open>getClaudeClient()\<close> followed by \<^verbatim>\<open>claude.messages.create\<close> with the prompt.
\<close>

datatype event =
    QueryFunders
  | CacheLookup string
  | QueryGrants string
  | BuildPrompt
  | CallScoring string
  | SaveToCache string

text \<open>
  The surroundings of a call of \<^verbatim>\<open>matchFunders\<close>: the digest, \<^verbatim>\<open>JSON.parse\<close> (with
  the cast of its result to the item array; \<open>None\<close> when it throws or the value is no such
  array), \<^verbatim>\<open>buildMatchingPrompt\<close> (a pure function of the profile and the funders, whose
  text no property here reads), the scoring service (\<open>Inl\<close> when the client throws), the
  clock, and the faults of the store calls.
\<close>

record match_env =
  sha256_hex :: "string \<Rightarrow> string"
  json_parse :: "string \<Rightarrow> MatchResponseItem list option"
  buildMatchingPrompt :: "CharityProfile \<Rightarrow> FunderWithGrants list \<Rightarrow> string"
  scoring_service :: "string \<Rightarrow> string + content_block list"
  now :: int
  funders_fault :: fault
  grants_fault :: "string \<Rightarrow> fault"
  cache_read_fault :: fault
  sync_log_fault :: fault
  cache_write_fault :: fault

text \<open>
  The first occurrence of a pattern in a text: what stands before it and what stands
  after it.
\<close>

fun split_at_first :: "string \<Rightarrow> string \<Rightarrow> (string \<times> string) option" where
  "split_at_first pat [] = (if pat = [] then Some ([], []) else None)"
| "split_at_first pat (c # cs) =
     (if prefix pat (c # cs) then Some ([], drop (length pat) (c # cs))
      else map_option (\<lambda>(before, after). (c # before, after)) (split_at_first pat cs))"

definition fence_open :: string where
  "fence_open = [CHR 0x60, CHR 0x60, CHR 0x60] @ ''json'' @ [CHR 0x0A]"

definition fence_close :: string where
  "fence_close = [CHR 0x0A, CHR 0x60, CHR 0x60, CHR 0x60]"

text \<open>
  \<^verbatim>\<open>
  const jsonMatch = responseText.match(/```json\n([\s\S]*?)\n```/);
  const jsonText = jsonMatch ? jsonMatch[1] : responseText;
  \<close>
  The match starts at the first opening fence that a closing fence follows, and the lazy
  group ends at the first closing fence after it.
\<close>

definition extract_json :: "string \<Rightarrow> string" where
  "extract_json responseText =
     (case split_at_first fence_open responseText of
        None \<Rightarrow> responseText
      | Some (_, after) \<Rightarrow>
          (case split_at_first fence_close after of
             None \<Rightarrow> responseText
           | Some (body, _) \<Rightarrow> body))"

text \<open>
  The body of \<^verbatim>\<open>parsedMatches.map\<close>: \<open>None\<close> where it throws
  \<^verbatim>\<open>Funder ... not found\<close>.
\<close>

definition to_funder_match :: "FunderWithGrants list \<Rightarrow> MatchResponseItem \<Rightarrow> FunderMatch option" where
  "to_funder_match fundersWithGrants m =
     (case find (\<lambda>f. org_id (fwg_funder f) = item_funder_org_id m) fundersWithGrants of
        None \<Rightarrow> None
      | Some funderData \<Rightarrow>
          Some \<lparr> funder =
                   \<lparr> org_id = org_id (fwg_funder funderData),
                     name = name (fwg_funder funderData),
                     is_funder = True,
                     is_recipient = is_recipient (fwg_funder funderData),
                     funder_stats = funder_stats (fwg_funder funderData),
                     recipient_stats = recipient_stats (fwg_funder funderData),
                     last_grant_made_date = None \<rparr>,
                 match_score = item_match_score m,
                 score_breakdown = item_score_breakdown m,
                 reasoning = item_reasoning m,
                 similar_charities_funded =
                   (case item_similar_charities_funded m of None \<Rightarrow> [] | Some cs \<Rightarrow> cs) \<rparr>)"

text \<open>
  \<^verbatim>\<open>
  function parseMatchingResponse(responseText, fundersWithGrants): FunderMatch[] {
    try {
      ...
      const parsedMatches: MatchResponseItem[] = JSON.parse(jsonText);
      return parsedMatches.map((match) => {
        const funderData = fundersWithGrants.find((f) => f.funder.org_id === match.funder_org_id);
        if (!funderData) { throw new Error(`Funder ${match.funder_org_id} not found`); }
        return { ... };
      });
    } catch (error) {
      ...
      throw new Error("Failed to parse AI matching response");
    }
  }
  \<close>
\<close>

definition parseMatchingResponse ::
  "(string \<Rightarrow> MatchResponseItem list option) \<Rightarrow> string \<Rightarrow> FunderWithGrants list
    \<Rightarrow> match_error + FunderMatch list" where
  "parseMatchingResponse parse responseText fundersWithGrants =
     (case parse (extract_json responseText) of
        None \<Rightarrow> Inl FailedToParse
      | Some parsedMatches \<Rightarrow>
          (case those (map (to_funder_match fundersWithGrants) parsedMatches) of
             None \<Rightarrow> Inl FailedToParse
           | Some ms \<Rightarrow> Inr ms))"

text \<open>
  Step 1:
  \<^verbatim>\<open>
  from("organisations").select("*").eq("is_funder", true)
    .order("funder_stats->aggregate->grants", { ascending: false }).limit(50)
  \<close>
\<close>

definition funder_grant_count :: "Organisation \<Rightarrow> nat option" where
  "funder_grant_count f = map_option aggregate_grants (funder_stats f)"

definition query_funders :: "Organisation list \<Rightarrow> Organisation list" where
  "query_funders orgs = take 50 (order_desc funder_grant_count (filter is_funder orgs))"

text \<open>
  Step 4, for one funder:
  \<^verbatim>\<open>
  from("grants").select("*").eq("funder_org_id", funder.org_id)
    .order("award_date", { ascending: false }).limit(10)
  \<close>
  with \<^verbatim>\<open>{ funder, grants: [] }\<close> when the query returns an error. The stored timestamps
  are compared as their ISO texts.
\<close>

definition grants_sample :: "fault \<Rightarrow> Grant list \<Rightarrow> Organisation \<Rightarrow> FunderWithGrants" where
  "grants_sample flt gs f =
     \<lparr> fwg_funder = f,
       fwg_grants =
         (if flt = NoFault
          then take 10 (order_desc award_date (filter (\<lambda>g. funder_org_id g = Some (org_id f)) gs))
          else []) \<rparr>"

text \<open>The first rejected promise of the \<^verbatim>\<open>Promise.all\<close> of step 4, if there is one.\<close>

definition first_thrown :: "(string \<Rightarrow> fault) \<Rightarrow> Organisation list \<Rightarrow> string option" where
  "first_thrown flt fs =
     (case List.map_filter (\<lambda>f. case flt (org_id f) of Throws e \<Rightarrow> Some e | _ \<Rightarrow> None) fs of
        [] \<Rightarrow> None
      | e # _ \<Rightarrow> Some e)"

text \<open>
  \<^verbatim>\<open>response.content.find((block) => block.type === "text")\<close>.
\<close>

fun first_text :: "content_block list \<Rightarrow> string option" where
  "first_text [] = None"
| "first_text (TextBlock t # _) = Some t"
| "first_text (OtherBlock # bs) = first_text bs"

text \<open>
  Step 8:
  \<^verbatim>\<open>matches.sort((a, b) => b.match_score - a.match_score).slice(0, 20)\<close>.
  \<^verbatim>\<open>Array.prototype.sort\<close> is stable, and so is \<^const>\<open>sort_key\<close>.
\<close>

definition sortedMatches :: "FunderMatch list \<Rightarrow> FunderMatch list" where
  "sortedMatches ms = take 20 (sort_key (\<lambda>m. - match_score m) ms)"

text \<open>
  Steps 4 to 9 of \<^verbatim>\<open>matchFunders\<close>, which run when the cache gave no result: the grant
  samples, the prompt, the scoring call, the parse, the ranking and the write to the cache.
  The result is the value returned or the error thrown, the store afterwards, and the calls
  made.
\<close>

definition compute_matches ::
  "match_env \<Rightarrow> CharityProfile \<Rightarrow> Organisation list \<Rightarrow> string \<Rightarrow> store
    \<Rightarrow> (match_error + FunderMatch list) \<times> store \<times> event list" where
  "compute_matches E p funders key st =
     (let queries = map (\<lambda>f. QueryGrants (org_id f)) funders in
      case first_thrown (grants_fault E) funders of
        Some e \<Rightarrow> (Inl (StoreThrew e), st, queries)
      | None \<Rightarrow>
          (let fundersWithGrants =
                 map (\<lambda>f. grants_sample (grants_fault E (org_id f)) (grants st) f) funders;
               userPrompt = buildMatchingPrompt E p fundersWithGrants;
               called = queries @ [BuildPrompt, CallScoring userPrompt]
           in case scoring_service E userPrompt of
                Inl e \<Rightarrow> (Inl (ScoringFailed e), st, called)
              | Inr content \<Rightarrow>
                  (case first_text content of
                     None \<Rightarrow> (Inl NoTextContent, st, called)
                   | Some text \<Rightarrow>
                       (case parseMatchingResponse (json_parse E) text fundersWithGrants of
                          Inl e \<Rightarrow> (Inl e, st, called)
                        | Inr ms \<Rightarrow>
                            (Inr (sortedMatches ms),
                             saveToCache (sync_log_fault E) (cache_write_fault E) (now E) st p key
                               (sortedMatches ms),
                             called @ [SaveToCache key])))))"

text \<open>
  \<^verbatim>\<open>
  export async function matchFunders(charityProfile, options = {}): Promise<FunderMatch[]> {
    const { forceRefresh = false } = options;
    try {
      const { data: funders, error: fundersError } = await supabase.from("organisations") ...;
      if (fundersError) { throw new Error(`Failed to fetch funders: ${fundersError.message}`); }
      if (!funders || funders.length === 0) { throw new Error("No funders found in database"); }
      const funderOrgIds = funders.map((f) => f.org_id);
      const cacheKey = generateCacheKey(charityProfile, funderOrgIds);
      if (!forceRefresh) {
        const cacheResult = await checkCache(charityProfile.reg_charity_number, cacheKey);
        if (cacheResult.hit && cacheResult.matches) { return cacheResult.matches; }
      }
      ... steps 4 to 9 ...
      return sortedMatches;
    } catch (error) { console.error("Error in matchFunders:", error); throw error; }
  }
  \<close>
\<close>

definition matchFunders ::
  "match_env \<Rightarrow> CharityProfile \<Rightarrow> bool \<Rightarrow> store
    \<Rightarrow> (match_error + FunderMatch list) \<times> store \<times> event list" where
  "matchFunders E p forceRefresh st =
     (case funders_fault E of
        Throws e \<Rightarrow> (Inl (StoreThrew e), st, [QueryFunders])
      | ReturnsError e \<Rightarrow> (Inl (FailedToFetchFunders e), st, [QueryFunders])
      | NoFault \<Rightarrow>
          (let funders = query_funders (organisations st) in
           if funders = [] then (Inl NoFundersFound, st, [QueryFunders])
           else
             (let funderOrgIds = map org_id funders;
                  key = generateCacheKey (sha256_hex E) p funderOrgIds;
                  cacheResult =
                    (if forceRefresh then None
                     else Some (checkCache (cache_read_fault E) (now E) (match_cache st)
                                  (reg_charity_number p) key));
                  looked = (if forceRefresh then [] else [CacheLookup key])
              in case (case cacheResult of
                         None \<Rightarrow> None
                       | Some r \<Rightarrow> if hit r then result_matches r else None) of
                   Some cached \<Rightarrow> (Inr cached, st, QueryFunders # looked)
                 | None \<Rightarrow>
                     (case compute_matches E p funders key st of
                        (res, st', calls) \<Rightarrow> (res, st', QueryFunders # looked @ calls)))))"

section \<open>Grant phase of the sync\<close>

text \<open>
  An element of \<^verbatim>\<open>GrantsResponse.results\<close>: the grant identifier, the fields of
  \<^verbatim>\<open>data\<close> that the sync reads (the object itself is taken to be there), and the
  organisation identifiers of the listed funders and recipients.
\<close>

record GrantData =
  gd_grant_id :: string
  gd_title :: "string option"
  gd_description :: "string option"
  amountAwarded :: "int option"
  gd_currency :: "string option"
  awardDate :: "string option"
  funders :: "string list"
  recipients :: "string list"

text \<open>
  \<^verbatim>\<open>maxGrants\<close> comes from \<^verbatim>\<open>parseInt\<close>; the model takes it as an integer.
\<close>

record SyncOptions =
  maxOrgs :: int
  maxGrants :: int
  offset :: int
  incremental :: bool
  lastSyncDate :: "string option"

text \<open>
  The surroundings of the grant phase: \<^verbatim>\<open>new Date(string)\<close> (\<open>None\<close> for an invalid
  date), the remote call \<^verbatim>\<open>getGrantsMade(org_id, 100, 0)\<close> (\<open>Inl\<close> when it throws), and
  whether the funder query, the existence probe of a grant, the upsert of a grant and the
  update of an organisation come back with an error.
\<close>

record sync_env =
  newDate :: "string \<Rightarrow> int option"
  getGrantsMade :: "string \<Rightarrow> string + GrantData list"
  funders_error :: "string option"
  probe_error :: "string \<Rightarrow> bool"
  upsert_error :: "string \<Rightarrow> bool"
  update_error :: "string \<Rightarrow> bool"

datatype sync_event = SkippedGrant string | UpsertGrant Grant

record sync_state =
  synced :: nat
  skipped :: nat
  db :: store
  calls :: "sync_event list"

text \<open>A value is truthy as a string when it is present and not empty.\<close>

definition truthy :: "string option \<Rightarrow> bool" where
  "truthy s = (case s of None \<Rightarrow> False | Some t \<Rightarrow> t \<noteq> [])"

text \<open>
  \<^verbatim>\<open>
  if (options.incremental && options.lastSyncDate && awardDate) {
    const grantDate = new Date(awardDate);
    const lastSync = new Date(options.lastSyncDate);
    if (grantDate < lastSync) { skipped++; continue; }
  }
  \<close>
  The comparison of two dates is false when either is invalid.
\<close>

definition predates :: "(string \<Rightarrow> int option) \<Rightarrow> string option \<Rightarrow> string option \<Rightarrow> bool" where
  "predates parse lastSync award =
     (truthy lastSync \<and> truthy award \<and>
      (case (award, lastSync) of
         (Some a, Some l) \<Rightarrow>
           (case (parse a, parse l) of
              (Some grantDate, Some lastSyncTime) \<Rightarrow> grantDate < lastSyncTime
            | _ \<Rightarrow> False)
       | _ \<Rightarrow> False))"

text \<open>
  \<^verbatim>\<open>from("grants").select("grant_id").eq("grant_id", id).single()\<close>: a row when exactly
  one is selected and the query reports no error.
\<close>

definition existing :: "sync_env \<Rightarrow> Grant list \<Rightarrow> string \<Rightarrow> bool" where
  "existing E gs gid =
     (\<not> probe_error E gid \<and> length (filter (\<lambda>g. grant_id g = gid) gs) = 1)"

text \<open>\<^verbatim>\<open>a?.[0]?.org_id\<close> when it is truthy.\<close>

definition first_org_id :: "string list \<Rightarrow> string option" where
  "first_org_id ids = (case ids of [] \<Rightarrow> None | i # _ \<Rightarrow> if i = [] then None else Some i)"

definition grant_row :: "Organisation \<Rightarrow> GrantData \<Rightarrow> Grant" where
  "grant_row f g =
     \<lparr> grant_id = gd_grant_id g,
       title = gd_title g,
       description = gd_description g,
       amount_awarded = amountAwarded g,
       currency = (case gd_currency g of None \<Rightarrow> ''GBP'' | Some c \<Rightarrow> if c = [] then ''GBP'' else c),
       award_date = awardDate g,
       funder_org_id = (case first_org_id (funders g) of None \<Rightarrow> Some (org_id f) | Some i \<Rightarrow> Some i),
       recipient_org_id = first_org_id (recipients g) \<rparr>"

text \<open>\<^verbatim>\<open>upsert(row, { onConflict: "grant_id" })\<close>.\<close>

definition upsert_grant :: "Grant \<Rightarrow> Grant list \<Rightarrow> Grant list" where
  "upsert_grant row gs =
     (if \<exists>g \<in> set gs. grant_id g = grant_id row
      then map (\<lambda>g. if grant_id g = grant_id row then row else g) gs
      else gs @ [row])"

text \<open>
  The loop over one page, \<^verbatim>\<open>for (const grantData of grantsResponse.results)\<close>:
  \<^verbatim>\<open>
  if (synced >= options.maxGrants) break;
  ... skip a grant older than the last sync ...
  if (options.incremental) {
    const { data: existing } = await supabase.from("grants") ... .single();
    if (existing) { skipped++; continue; }
  }
  ...
  const { error: grantError } = await supabase.from("grants").upsert({ ... }, { onConflict: "grant_id" });
  if (grantError) { console.error(...); } else { synced++; }
  \<close>
\<close>

fun sync_page :: "sync_env \<Rightarrow> SyncOptions \<Rightarrow> Organisation \<Rightarrow> GrantData list \<Rightarrow> sync_state \<Rightarrow> sync_state" where
  "sync_page E opts f [] st = st"
| "sync_page E opts f (g # gs) st =
     (if maxGrants opts \<le> int (synced st) then st
      else if incremental opts \<and> predates (newDate E) (lastSyncDate opts) (awardDate g) then
        sync_page E opts f gs
          (st\<lparr>skipped := skipped st + 1, calls := calls st @ [SkippedGrant (gd_grant_id g)]\<rparr>)
      else if incremental opts \<and> existing E (grants (db st)) (gd_grant_id g) then
        sync_page E opts f gs
          (st\<lparr>skipped := skipped st + 1, calls := calls st @ [SkippedGrant (gd_grant_id g)]\<rparr>)
      else if upsert_error E (gd_grant_id g) then
        sync_page E opts f gs (st\<lparr>calls := calls st @ [UpsertGrant (grant_row f g)]\<rparr>)
      else
        sync_page E opts f gs
          (st\<lparr>synced := synced st + 1,
              db := (db st)\<lparr>grants := upsert_grant (grant_row f g) (grants (db st))\<rparr>,
              calls := calls st @ [UpsertGrant (grant_row f g)]\<rparr>))"

text \<open>
  \<^verbatim>\<open>
  if (grantsResponse.results.length > 0) {
    const latestGrant = grantsResponse.results[0].data;
    await supabase.from("organisations")
      .update({ last_grant_made_date: latestGrant.awardDate }).eq("org_id", funder.org_id);
  }
  \<close>
  An absent \<^verbatim>\<open>awardDate\<close> is not serialised, and the update then changes no column.
\<close>

definition update_last_grant_made_date ::
  "sync_env \<Rightarrow> Organisation \<Rightarrow> GrantData list \<Rightarrow> Organisation list \<Rightarrow> Organisation list" where
  "update_last_grant_made_date E f results orgs =
     (case results of
        [] \<Rightarrow> orgs
      | latestGrant # _ \<Rightarrow>
          (case awardDate latestGrant of
             None \<Rightarrow> orgs
           | Some d \<Rightarrow>
               if update_error E (org_id f) then orgs
               else map (\<lambda>r. if org_id r = org_id f then r\<lparr>last_grant_made_date := Some d\<rparr> else r)
                      orgs))"

text \<open>
  The body of the loop over the funders, inside its \<^verbatim>\<open>try\<close>: a failed
  \<^verbatim>\<open>getGrantsMade\<close> is logged and the funder is left alone.
\<close>

definition sync_funder :: "sync_env \<Rightarrow> SyncOptions \<Rightarrow> Organisation \<Rightarrow> sync_state \<Rightarrow> sync_state" where
  "sync_funder E opts f st =
     (case getGrantsMade E (org_id f) of
        Inl _ \<Rightarrow> st
      | Inr results \<Rightarrow>
          (let st' = sync_page E opts f results st in
           st'\<lparr>db := (db st')\<lparr>organisations :=
                  update_last_grant_made_date E f results (organisations (db st'))\<rparr>\<rparr>))"

text \<open>
  \<^verbatim>\<open>for (const funder of funders) { if (synced >= options.maxGrants) break; ... }\<close>
\<close>

fun sync_funders :: "sync_env \<Rightarrow> SyncOptions \<Rightarrow> Organisation list \<Rightarrow> sync_state \<Rightarrow> sync_state" where
  "sync_funders E opts [] st = st"
| "sync_funders E opts (f # fs) st =
     (if maxGrants opts \<le> int (synced st) then st
      else sync_funders E opts fs (sync_funder E opts f st))"

text \<open>
  \<^verbatim>\<open>
  async function syncGrantsForFunders(options): Promise<{ synced: number; skipped: number }> {
    const { data: funders, error: fundersError } = await supabase.from("organisations")
      .select("org_id, name, last_grant_made_date").eq("is_funder", true).limit(50);
    if (fundersError) { throw new Error(`Failed to fetch funders: ${fundersError.message}`); }
    if (!funders || funders.length === 0) { return { synced: 0, skipped: 0 }; }
    let synced = 0; let skipped = 0;
    for (const funder of funders) { ... }
    return { synced, skipped };
  }
  \<close>
  The counts returned are the fields \<^const>\<open>synced\<close> and \<^const>\<open>skipped\<close> of the result.
\<close>

definition sync_funder_list :: "store \<Rightarrow> Organisation list" where
  "sync_funder_list st = take 50 (filter is_funder (organisations st))"

definition syncGrantsForFunders :: "sync_env \<Rightarrow> SyncOptions \<Rightarrow> store \<Rightarrow> string + sync_state" where
  "syncGrantsForFunders E opts st =
     (case funders_error E of
        Some e \<Rightarrow> Inl (''Failed to fetch funders: '' @ e)
      | None \<Rightarrow>
          Inr (sync_funders E opts (sync_funder_list st)
                 \<lparr> synced = 0, skipped = 0, db = st, calls = [] \<rparr>))"

text \<open>The grants of the pages that a run over the given funders can fetch.\<close>

definition fetched_grants :: "sync_env \<Rightarrow> Organisation list \<Rightarrow> GrantData list" where
  "fetched_grants E fs =
     concat (map (\<lambda>f. case getGrantsMade E (org_id f) of Inl _ \<Rightarrow> [] | Inr results \<Rightarrow> results) fs)"

section \<open>Rate limiter\<close>

text \<open>
  \<^verbatim>\<open>
  const RATE_LIMIT_DELAY = 500; // 500ms = 2 requests/second

  class RateLimiter {
    private queue: Array<() => void> = [];
    private processing = false;

    async add<T>(fn: () => Promise<T>): Promise<T> {
      return new Promise((resolve, reject) => {
        this.queue.push(async () => {
          try { const result = await fn(); resolve(result); }
          catch (error) { reject(error); }
        });
        this.process();
      });
    }

    private async process() {
      if (this.processing || this.queue.length === 0) return;
      this.processing = true;
      const fn = this.queue.shift();
      if (fn) {
        await fn();
        await new Promise(resolve => setTimeout(resolve, RATE_LIMIT_DELAY));
      }
      this.processing = false;
      if (this.queue.length > 0) { this.process(); }
    }
  }
  \<close>
  The limiter is a transition system. Its state is the two fields of the class and what
  the run-time holds for it: the units of work that were started and have not settled,
  the pending timers (by the time at which they are due), and the time of the last event
  in milliseconds. Two logs record when each unit was started and what was delivered to
  the submitter of each unit. A unit of work is named by a number.

  JavaScript runs each piece of code between two \<^verbatim>\<open>await\<close>s to its end before the next
  event, so every event is one step:
  \<^item> \<open>Add i t\<close>: \<^verbatim>\<open>add\<close> is called at time \<open>t\<close> with unit \<open>i\<close>; it pushes the unit and calls
    \<^verbatim>\<open>process\<close>.
  \<^item> \<open>Settle i oc t\<close>: the promise of the running unit \<open>i\<close> settles at time \<open>t\<close>; the
    wrapper resolves or rejects the promise that \<^verbatim>\<open>add\<close> gave to the submitter of \<open>i\<close>,
    and \<^verbatim>\<open>process\<close> goes on to set its timer.
  \<^item> \<open>Timeout d t\<close>: the timer due at \<open>d\<close> fires at time \<open>t\<close>, not before it is due;
    \<^verbatim>\<open>process\<close> clears the flag and calls itself when the queue is not empty.
  When a unit settles, and with what outcome, is the environment's choice: any list of
  events whose steps are all enabled is a run.
\<close>

datatype outcome = Resolved | Rejected

datatype rl_event = Add nat int | Settle nat outcome int | Timeout int int

record limiter =
  queue :: "nat list"
  processing :: bool
  in_flight :: "nat list"
  timers :: "int list"
  clock :: int
  starts :: "(nat \<times> int) list"
  deliveries :: "(nat \<times> outcome) list"

definition RATE_LIMIT_DELAY :: int where
  "RATE_LIMIT_DELAY = 500"

definition new_limiter :: limiter where
  "new_limiter =
     \<lparr> queue = [], processing = False, in_flight = [], timers = [], clock = 0, starts = [],
       deliveries = [] \<rparr>"

text \<open>
  \<^verbatim>\<open>process\<close> up to its first \<^verbatim>\<open>await\<close>: the guard, the flag, the shift and the call of
  the unit, which starts at the time of the event.
\<close>

definition process :: "limiter \<Rightarrow> limiter" where
  "process s =
     (if processing s then s
      else (case queue s of
              [] \<Rightarrow> s
            | fn # rest \<Rightarrow>
                s\<lparr>processing := True, queue := rest, in_flight := in_flight s @ [fn],
                  starts := starts s @ [(fn, clock s)]\<rparr>))"

fun step :: "rl_event \<Rightarrow> limiter \<Rightarrow> limiter option" where
  "step (Add i t) s =
     (if t < clock s then None
      else Some (process (s\<lparr>clock := t, queue := queue s @ [i]\<rparr>)))"
| "step (Settle i oc t) s =
     (if t < clock s \<or> i \<notin> set (in_flight s) then None
      else Some (s\<lparr>clock := t, in_flight := remove1 i (in_flight s),
                   deliveries := deliveries s @ [(i, oc)],
                   timers := timers s @ [t + RATE_LIMIT_DELAY]\<rparr>))"
| "step (Timeout d t) s =
     (if t < clock s \<or> t < d \<or> d \<notin> set (timers s) then None
      else Some (process (s\<lparr>clock := t, timers := remove1 d (timers s), processing := False\<rparr>)))"

fun run :: "rl_event list \<Rightarrow> limiter \<Rightarrow> limiter option" where
  "run [] s = Some s"
| "run (e # es) s = (case step e s of None \<Rightarrow> None | Some s' \<Rightarrow> run es s')"

text \<open>Consecutive starts are at least \<^const>\<open>RATE_LIMIT_DELAY\<close> apart.\<close>

fun paced :: "(nat \<times> int) list \<Rightarrow> bool" where
  "paced [] = True"
| "paced [x] = True"
| "paced (x # y # ys) = (snd x + RATE_LIMIT_DELAY \<le> snd y \<and> paced (y # ys))"

text \<open>The units in the order of their submission, and the outcomes in the order they arrive.\<close>

definition submitted :: "rl_event list \<Rightarrow> nat list" where
  "submitted evs = List.map_filter (\<lambda>e. case e of Add i _ \<Rightarrow> Some i | _ \<Rightarrow> None) evs"

definition settlements :: "rl_event list \<Rightarrow> (nat \<times> outcome) list" where
  "settlements evs = List.map_filter (\<lambda>e. case e of Settle i oc _ \<Rightarrow> Some (i, oc) | _ \<Rightarrow> None) evs"

text \<open>
  The same events with every outcome replaced by success, and a state with the outcomes of
  its deliveries replaced so: what is left of a run when the outcomes are forgotten.
\<close>

definition erase :: "rl_event \<Rightarrow> rl_event" where
  "erase e = (case e of Settle i oc t \<Rightarrow> Settle i Resolved t | _ \<Rightarrow> e)"

definition schedule :: "limiter \<Rightarrow> limiter" where
  "schedule s = s\<lparr>deliveries := map (\<lambda>(i, oc). (i, Resolved)) (deliveries s)\<rparr>"

text \<open>The invariant of the limiter.\<close>

definition last_start_ok :: "limiter \<Rightarrow> bool" where
  "last_start_ok s =
     (case rev (starts s) of
        [] \<Rightarrow> True
      | (i, t0) # _ \<Rightarrow>
          t0 \<le> clock s
          \<and> (\<forall>d \<in> set (timers s). t0 + RATE_LIMIT_DELAY \<le> d)
          \<and> (\<not> processing s \<longrightarrow> t0 + RATE_LIMIT_DELAY \<le> clock s))"

definition limiter_inv :: "limiter \<Rightarrow> bool" where
  "limiter_inv s =
     ((if processing s
       then (\<exists>i. in_flight s = [i] \<and> timers s = []) \<or> (in_flight s = [] \<and> (\<exists>d. timers s = [d]))
       else in_flight s = [] \<and> timers s = [])
      \<and> paced (starts s)
      \<and> last_start_ok s
      \<and> map fst (starts s) = map fst (deliveries s) @ in_flight s)"

section \<open>Auxiliary notions and example data\<close>

text \<open>
  Profiles for the examples: one with a single "What" code made of \<open>n + 1\<close> digits 1, one
  with a given income and a given "What" code, and one with two "What" codes.
\<close>

definition numbered_profile :: "nat \<Rightarrow> CharityProfile" where
  "numbered_profile n =
     \<lparr> reg_charity_number = 1, charity_name = [], latest_income = None,
       who_what_where = Some [\<lparr> classification_code = replicate (Suc n) CHR ''1'',
                                classification_type = ''What'', classification_desc = [] \<rparr>],
       CharityAoORegion = None \<rparr>"

definition example_profile :: "int \<Rightarrow> string \<Rightarrow> CharityProfile" where
  "example_profile income what =
     \<lparr> reg_charity_number = 1234567, charity_name = ''Example Charity'',
       latest_income = Some income,
       who_what_where = Some
         [\<lparr> classification_code = what, classification_type = ''What'',
            classification_desc = ''Education'' \<rparr>,
          \<lparr> classification_code = ''201'', classification_type = ''Who'',
            classification_desc = ''Children'' \<rparr>],
       CharityAoORegion = Some [\<lparr> region = ''London'' \<rparr>] \<rparr>"

definition two_codes_profile :: CharityProfile where
  "two_codes_profile =
     (example_profile 52000 ''101'')\<lparr>who_what_where := Some
        [\<lparr> classification_code = ''101'', classification_type = ''What'',
           classification_desc = ''Education'' \<rparr>,
         \<lparr> classification_code = ''102'', classification_type = ''What'',
           classification_desc = ''Education'' \<rparr>,
         \<lparr> classification_code = ''201'', classification_type = ''Who'',
           classification_desc = ''Children'' \<rparr>]\<rparr>"

text \<open>A grant of a page that predates the last sync of an incremental run.\<close>

definition old_grant :: "sync_env \<Rightarrow> SyncOptions \<Rightarrow> GrantData \<Rightarrow> bool" where
  "old_grant E opts g = predates (newDate E) (lastSyncDate opts) (awardDate g)"





text \<open>
  A sync over one funder: a date parser that knows the three dates of the examples, a grant
  with a given identifier and award date that lists the funder and no recipient, the
  funder, a store that holds only the funder, surroundings in which the remote service
  answers every request with a given page and no call of the store fails, and options with
  a given cap.
\<close>

definition example_date :: "string \<Rightarrow> int option" where
  "example_date s =
     (if s = ''2023-03-01'' then Some 20230301
      else if s = ''2024-01-01'' then Some 20240101
      else if s = ''2024-02-01'' then Some 20240201
      else None)"

definition example_grant :: "string \<Rightarrow> string \<Rightarrow> GrantData" where
  "example_grant gid d =
     \<lparr> gd_grant_id = gid, gd_title = Some ''Core costs'', gd_description = None,
       amountAwarded = Some 5000, gd_currency = None, awardDate = Some d,
       funders = [''GB-CHC-1''], recipients = [] \<rparr>"

definition example_funder :: Organisation where
  "example_funder =
     \<lparr> org_id = ''GB-CHC-1'', name = ''Example Trust'', is_funder = True, is_recipient = False,
       funder_stats = None, recipient_stats = None, last_grant_made_date = None \<rparr>"

definition example_store :: store where
  "example_store = \<lparr> organisations = [example_funder], grants = [], sync_logs = [], match_cache = [] \<rparr>"

definition example_sync_env :: "GrantData list \<Rightarrow> sync_env" where
  "example_sync_env page =
     \<lparr> newDate = example_date, getGrantsMade = (\<lambda>_. Inr page), funders_error = None,
       probe_error = (\<lambda>_. False), upsert_error = (\<lambda>_. False), update_error = (\<lambda>_. False) \<rparr>"

definition example_options :: "int \<Rightarrow> bool \<Rightarrow> SyncOptions" where
  "example_options cap inc =
     \<lparr> maxOrgs = 50, maxGrants = cap, offset = 0, incremental = inc,
       lastSyncDate = (if inc then Some ''2024-01-01'' else None) \<rparr>"

text \<open>The constraint \<^verbatim>\<open>UNIQUE (charity_number, cache_key)\<close> of the cache table.\<close>

definition unique_keys :: "cache_row list \<Rightarrow> bool" where
  "unique_keys rows = distinct (map (\<lambda>r. (charity_number r, cache_key r)) rows)"

text \<open>
  A list in descending order of score, a ranked list (in that order, at most 20 long), and a
  cache all of whose lists are ranked.
\<close>

definition sorted_desc :: "FunderMatch list \<Rightarrow> bool" where
  "sorted_desc ms = sorted_wrt (\<lambda>a b. match_score b \<le> match_score a) ms"

definition ranked :: "FunderMatch list \<Rightarrow> bool" where
  "ranked ms = (sorted_desc ms \<and> length ms \<le> 20)"

definition cache_ranked :: "cache_row list \<Rightarrow> bool" where
  "cache_ranked rows = list_all (\<lambda>r. ranked (matches r)) rows"

text \<open>
  The cache key of a call, the grant samples of its funders, and what its cache lookup
  gives (nothing when the refresh is forced): the values that \<^const>\<open>matchFunders\<close> binds.
\<close>

definition match_key :: "match_env \<Rightarrow> CharityProfile \<Rightarrow> store \<Rightarrow> string" where
  "match_key E p st =
     generateCacheKey (sha256_hex E) p (map org_id (query_funders (organisations st)))"

definition samples :: "match_env \<Rightarrow> store \<Rightarrow> FunderWithGrants list" where
  "samples E st =
     map (\<lambda>f. grants_sample (grants_fault E (org_id f)) (grants st) f)
       (query_funders (organisations st))"

definition cache_answer :: "match_env \<Rightarrow> CharityProfile \<Rightarrow> bool \<Rightarrow> store \<Rightarrow> FunderMatch list option" where
  "cache_answer E p forceRefresh st =
     (if forceRefresh then None
      else (let r = checkCache (cache_read_fault E) (now E) (match_cache st)
                      (reg_charity_number p) (match_key E p st)
            in if hit r then result_matches r else None))"

text \<open>
  A matching call: surroundings in which the scoring service answers with one text block
  that decodes to a given list of items and nothing fails, with the identity in the place
  of the digest; a store with one funder, no grant and one completed sync; a cache row;
  a store without a funder; a store whose cache holds a row for the key of the example; and
  surroundings in which the scoring service is down.
\<close>

definition example_breakdown :: ScoreBreakdown where
  "example_breakdown =
     \<lparr> mission_alignment = 90, geographic_fit = 85, size_compatibility = 80,
       activity_level = 95, historical_precedent = 75 \<rparr>"

definition example_item :: "string \<Rightarrow> int \<Rightarrow> string \<Rightarrow> MatchResponseItem" where
  "example_item fid score why =
     \<lparr> item_funder_org_id = fid, item_match_score = score,
       item_score_breakdown = example_breakdown, item_reasoning = why,
       item_similar_charities_funded = None \<rparr>"

definition example_match :: "int \<Rightarrow> string \<Rightarrow> FunderMatch" where
  "example_match score why =
     \<lparr> funder = example_funder, match_score = score, score_breakdown = example_breakdown,
       reasoning = why, similar_charities_funded = [] \<rparr>"

definition example_match_env :: "MatchResponseItem list \<Rightarrow> match_env" where
  "example_match_env items =
     \<lparr> sha256_hex = (\<lambda>s. s), json_parse = (\<lambda>_. Some items),
       buildMatchingPrompt = (\<lambda>_ _. ''prompt''),
       scoring_service = (\<lambda>_. Inr [TextBlock ''reply'']),
       now = 1000, funders_fault = NoFault, grants_fault = (\<lambda>_. NoFault),
       cache_read_fault = NoFault, sync_log_fault = NoFault, cache_write_fault = NoFault \<rparr>"

definition example_match_store :: store where
  "example_match_store =
     \<lparr> organisations = [example_funder], grants = [],
       sync_logs = [\<lparr> sync_type = ''full'', status = ''completed'', completed_at = Some 100 \<rparr>],
       match_cache = [] \<rparr>"

definition example_cache_row :: cache_row where
  "example_cache_row =
     \<lparr> charity_number = 1234567, cache_key = ''key'', cached_charity_name = ''Example Charity'',
       matches = [example_match 90 ''first''], funder_count = 1, last_sync_at = Some 100,
       created_at = 1000, expires_at = 604801000 \<rparr>"

definition example_key :: string where
  "example_key = match_key (example_match_env []) (example_profile 52000 ''101'') example_match_store"

definition no_funder_store :: store where
  "no_funder_store =
     \<lparr> organisations = [example_funder\<lparr>is_funder := False\<rparr>], grants = [], sync_logs = [],
       match_cache = [] \<rparr>"

definition cached_store :: store where
  "cached_store = example_match_store\<lparr>match_cache := [example_cache_row\<lparr>cache_key := example_key\<rparr>]\<rparr>"

definition scoring_down_env :: match_env where
  "scoring_down_env = (example_match_env [])\<lparr>scoring_service := (\<lambda>_. Inl ''overloaded'')\<rparr>"

text \<open>
  Three units submitted at time 0: the first fails after 120 ms, the second succeeds.
\<close>

definition example_events :: "rl_event list" where
  "example_events =
     [Add 1 0, Add 2 0, Add 3 0, Settle 1 Rejected 120, Timeout 620 620,
      Settle 2 Resolved 700, Timeout 1200 1250]"

section \<open>Properties of the cache key\<close>

lemma sorted_joined_perm: "mset xs = mset ys \<Longrightarrow> sorted_joined xs = sorted_joined ys"
proof -
  assume eq: "mset xs = mset ys"
  have "sort xs = sort ys"
    by (rule properties_for_sort) (simp_all add: eq)
  then show ?thesis by (simp add: sorted_joined_def)
qed

lemma first_sep:
  "c \<notin> set xs \<Longrightarrow> c \<notin> set ys \<Longrightarrow> xs @ c # r = ys @ c # r' \<Longrightarrow> xs = ys \<and> r = r'"
proof (induction xs arbitrary: ys)
  case Nil
  then show ?case by (cases ys) auto
next
  case (Cons x xs)
  then show ?case by (cases ys) auto
qed

lemma join_comma_Cons:
  "join_comma (x # xs) = (if xs = [] then x else x @ CHR '','' # join_comma xs)"
  by (cases xs) simp_all

lemma join_comma_nonempty: "xs \<noteq> [] \<Longrightarrow> \<forall>x\<in>set xs. valid_code x \<Longrightarrow> join_comma xs \<noteq> []"
  by (cases xs) (auto simp: join_comma_Cons valid_code_def)

lemma join_comma_inj:
  "\<forall>x\<in>set xs. valid_code x \<Longrightarrow> \<forall>y\<in>set ys. valid_code y \<Longrightarrow>
   join_comma xs = join_comma ys \<Longrightarrow> xs = ys"
proof (induction xs arbitrary: ys)
  case Nil
  then show ?case using join_comma_nonempty[of ys] by (cases "ys = []") auto
next
  case (Cons x xs)
  show ?case
  proof (cases ys)
    case Nil
    with Cons.prems show ?thesis using join_comma_nonempty[of "x # xs"] by auto
  next
    case (Cons y ys')
    have vx: "CHR '','' \<notin> set x" and vy: "CHR '','' \<notin> set y"
      using Cons.prems Cons by (auto simp: valid_code_def)
    have eq: "join_comma (x # xs) = join_comma (y # ys')" using Cons.prems Cons by simp
    show ?thesis
    proof (cases "xs = []")
      case xe: True
      show ?thesis
      proof (cases "ys' = []")
        case True
        with xe eq Cons show ?thesis by simp
      next
        case False
        with xe eq have "x = y @ CHR '','' # join_comma ys'" by (simp add: join_comma_Cons)
        with vx show ?thesis by auto
      qed
    next
      case xne: False
      show ?thesis
      proof (cases "ys' = []")
        case True
        with xne eq have "y = x @ CHR '','' # join_comma xs" by (simp add: join_comma_Cons)
        with vy show ?thesis by auto
      next
        case False
        with xne eq have "x @ CHR '','' # join_comma xs = y @ CHR '','' # join_comma ys'"
          by (simp add: join_comma_Cons)
        from first_sep[OF vx vy this] have "x = y" "join_comma xs = join_comma ys'" by auto
        moreover have "xs = ys'" using Cons.IH[of ys'] Cons.prems Cons \<open>join_comma xs = join_comma ys'\<close> by auto
        ultimately show ?thesis using Cons by simp
      qed
    qed
  qed
qed

lemma hex_value_hex_digit: "n < 16 \<Longrightarrow> hex_value (hex_digit n) = n"
proof -
  have "\<forall>k \<in> {..<16}. hex_value (hex_digit k) = k"
    by (simp add: lessThan_nat_numeral lessThan_Suc hex_value_def hex_digit_def)
  then show "n < 16 \<Longrightarrow> hex_value (hex_digit n) = n" by simp
qed

lemma json_unescape_escape: "json_unescape (json_escape c @ r) = Some (c, r)"
proof (cases "(of_char c :: nat) < 32")
  case True
  have "16 * (of_char c div 16) + of_char c mod 16 = (of_char c :: nat)" by simp
  moreover have "(of_char c :: nat) div 16 < 16" using True by simp
  ultimately have "char_of (16 * hex_value (hex_digit (of_char c div 16))
      + hex_value (hex_digit (of_char c mod 16))) = c"
    by (simp add: hex_value_hex_digit)
  then show ?thesis
    by (simp add: json_unescape_def json_escape_def)
next
  case False
  then show ?thesis
    by (auto simp: json_unescape_def json_escape_def)
qed

lemma json_escape_hd: "\<exists>x t. json_escape c = x # t \<and> x \<noteq> CHR 0x22"
  by (simp add: json_escape_def)

lemma json_chars_inj:
  "concat (map json_escape s) @ CHR 0x22 # r = concat (map json_escape s') @ CHR 0x22 # r'
   \<Longrightarrow> s = s' \<and> r = r'"
proof (induction s arbitrary: s')
  case Nil
  show ?case
  proof (cases s')
    case Nil
    with Nil.prems show ?thesis by simp
  next
    case (Cons c t)
    obtain x u where "json_escape c = x # u" "x \<noteq> CHR 0x22" using json_escape_hd by blast
    with Nil.prems Cons show ?thesis by simp
  qed
next
  case (Cons c t)
  show ?case
  proof (cases s')
    case Nil
    obtain x u where "json_escape c = x # u" "x \<noteq> CHR 0x22" using json_escape_hd by blast
    with Cons.prems Nil show ?thesis by simp
  next
    case (Cons c' t')
    let ?R = "concat (map json_escape t) @ CHR 0x22 # r"
    let ?R' = "concat (map json_escape t') @ CHR 0x22 # r'"
    have "json_escape c @ ?R = json_escape c' @ ?R'" using Cons.prems Cons by simp
    then have "json_unescape (json_escape c @ ?R) = json_unescape (json_escape c' @ ?R')" by simp
    then have "c = c'" "?R = ?R'" by (simp_all add: json_unescape_escape)
    with Cons.IH[of t'] Cons show ?thesis by simp
  qed
qed

lemma json_string_inj: "json_string s @ r = json_string s' @ r' \<Longrightarrow> s = s' \<and> r = r'"
  using json_chars_inj[of s r s' r'] by (simp add: json_string_def)

lemma digits_no_comma: "CHR '','' \<notin> set (digits n)"
proof (induction n rule: digits.induct)
  case (1 n)
  have "\<forall>j \<in> {..<10}. ''0123456789'' ! j \<noteq> CHR '',''"
    by (simp add: lessThan_nat_numeral lessThan_Suc)
  then have d: "k < 10 \<Longrightarrow> ''0123456789'' ! k \<noteq> CHR '',''" for k :: nat
    by simp
  show ?case
  proof (cases "n < 10")
    case True
    then show ?thesis using d[of n] by (subst digits.simps) auto
  next
    case False
    then show ?thesis using "1.IH" d[of "n mod 10"] by (subst digits.simps) auto
  qed
qed

lemma json_number_no_comma: "CHR '','' \<notin> set (json_number i)"
  by (simp add: json_number_def digits_no_comma)

lemma dataToHash_fields:
  assumes "dataToHash p fs = dataToHash q gs"
  shows "cd_activities (charity_details p) = cd_activities (charity_details q)"
    and "cd_beneficiaries (charity_details p) = cd_beneficiaries (charity_details q)"
proof -
  let ?d = "charity_details p" and ?e = "charity_details q"
  let ?A = "\<lambda>d xs. json_string (cd_income_bucket d)
      @ '',\"activities\":'' @ json_string (cd_activities d)
      @ '',\"beneficiaries\":'' @ json_string (cd_beneficiaries d)
      @ '',\"regions\":'' @ json_string (cd_regions d)
      @ ''},\"funderIds\":'' @ json_string (sorted_joined xs) @ ''}''"
  have "json_number (cd_reg_charity_number ?d) @ CHR '','' # (''\"income_bucket\":'' @ ?A ?d fs)
      = json_number (cd_reg_charity_number ?e) @ CHR '','' # (''\"income_bucket\":'' @ ?A ?e gs)"
    using assms by (simp add: dataToHash_def Let_def)
  from first_sep[OF json_number_no_comma json_number_no_comma this]
  have "?A ?d fs = ?A ?e gs" by simp
  from json_string_inj[OF this]
  have "json_string (cd_activities ?d) @ ('',\"beneficiaries\":'' @ json_string (cd_beneficiaries ?d)
      @ '',\"regions\":'' @ json_string (cd_regions ?d)
      @ ''},\"funderIds\":'' @ json_string (sorted_joined fs) @ ''}'')
     = json_string (cd_activities ?e) @ ('',\"beneficiaries\":'' @ json_string (cd_beneficiaries ?e)
      @ '',\"regions\":'' @ json_string (cd_regions ?e)
      @ ''},\"funderIds\":'' @ json_string (sorted_joined gs) @ ''}'')"
    by simp
  from json_string_inj[OF this]
  have a: "cd_activities ?d = cd_activities ?e"
    and "json_string (cd_beneficiaries ?d) @ ('',\"regions\":'' @ json_string (cd_regions ?d)
      @ ''},\"funderIds\":'' @ json_string (sorted_joined fs) @ ''}'')
     = json_string (cd_beneficiaries ?e) @ ('',\"regions\":'' @ json_string (cd_regions ?e)
      @ ''},\"funderIds\":'' @ json_string (sorted_joined gs) @ ''}'')"
    by simp_all
  from json_string_inj[OF this(2)] a
  show "cd_activities ?d = cd_activities ?e" "cd_beneficiaries ?d = cd_beneficiaries ?e"
    by simp_all
qed

lemma sorted_joined_set:
  assumes "\<forall>x\<in>set xs. valid_code x" "\<forall>y\<in>set ys. valid_code y"
    and "sorted_joined xs = sorted_joined ys"
  shows "mset xs = mset ys"
proof -
  have "sort xs = sort ys"
    using assms by (intro join_comma_inj) (simp_all add: sorted_joined_def)
  then have "mset (sort xs) = mset (sort ys)" by simp
  then show ?thesis by simp
qed

lemma generateCacheKey_pigeonhole:
  "\<exists>p q. list_all valid_code (codes_of_type ''What'' p @ codes_of_type ''What'' q)
       \<and> set (codes_of_type ''What'' p) \<noteq> set (codes_of_type ''What'' q)
       \<and> generateCacheKey H p [] = generateCacheKey H q []"
proof -
  let ?f = "\<lambda>n. generateCacheKey H (numbered_profile n) []"
  have "range ?f \<subseteq> {xs. set xs \<subseteq> (UNIV :: char set) \<and> length xs \<le> 32}"
    by (auto simp: generateCacheKey_def)
  moreover have "finite {xs. set xs \<subseteq> (UNIV :: char set) \<and> length xs \<le> 32}"
    by (rule finite_lists_length_le) simp
  ultimately have "finite (range ?f)" by (rule finite_subset)
  then have "\<not> inj ?f" using finite_imageD by fastforce
  then obtain m n where mn: "m \<noteq> n" "?f m = ?f n" by (auto simp: inj_on_def)
  have c: "codes_of_type ''What'' (numbered_profile k) = [replicate (Suc k) CHR ''1'']" for k
    by (simp add: codes_of_type_def numbered_profile_def)
  have "replicate (Suc m) CHR ''1'' \<noteq> replicate (Suc n) CHR ''1''"
  proof
    assume "replicate (Suc m) CHR ''1'' = replicate (Suc n) CHR ''1''"
    then have "length (replicate (Suc m) CHR ''1'') = length (replicate (Suc n) CHR ''1'')"
      by (rule arg_cong)
    with mn show False by simp
  qed
  then have "list_all valid_code
         (codes_of_type ''What'' (numbered_profile m) @ codes_of_type ''What'' (numbered_profile n))
       \<and> set (codes_of_type ''What'' (numbered_profile m))
         \<noteq> set (codes_of_type ''What'' (numbered_profile n))
       \<and> ?f m = ?f n"
    using mn by (simp add: c valid_code_def)
  then show ?thesis by blast
qed

text \<open>
  The claim as stated fails in its last part, whatever the digest is. The codes are joined
  with commas, so the one code \<open>101,102\<close> and the two codes \<open>101\<close> and \<open>102\<close> are hashed
  alike: the set of "What" codes differs and the key is the same. And the key is at most
  32 characters long, so there are finitely many keys and infinitely many sets of codes:
  two profiles whose sets of "What" codes differ, with codes that are not empty and hold no
  comma, get the same key.
\<close>

theorem generateCacheKey_collision:
  "\<forall>H. generateCacheKey H (example_profile 52000 ''101,102'') [''GB-CHC-1'']
         = generateCacheKey H two_codes_profile [''GB-CHC-1'']
       \<and> set (codes_of_type ''What'' (example_profile 52000 ''101,102''))
         \<noteq> set (codes_of_type ''What'' two_codes_profile)
       \<and> (\<exists>p q. list_all valid_code (codes_of_type ''What'' p @ codes_of_type ''What'' q)
              \<and> set (codes_of_type ''What'' p) \<noteq> set (codes_of_type ''What'' q)
              \<and> generateCacheKey H p [] = generateCacheKey H q [])"
proof
  fix H :: "string \<Rightarrow> string"
  have "generateCacheKey H (example_profile 52000 ''101,102'') [''GB-CHC-1'']
      = generateCacheKey H two_codes_profile [''GB-CHC-1'']"
    by (simp add: generateCacheKey_def dataToHash_def charity_details_def codes_of_type_def
        region_names_def sorted_joined_def example_profile_def two_codes_profile_def)
  moreover have "set (codes_of_type ''What'' (example_profile 52000 ''101,102''))
      \<noteq> set (codes_of_type ''What'' two_codes_profile)"
    by (simp add: codes_of_type_def example_profile_def two_codes_profile_def)
  ultimately show "generateCacheKey H (example_profile 52000 ''101,102'') [''GB-CHC-1'']
         = generateCacheKey H two_codes_profile [''GB-CHC-1'']
       \<and> set (codes_of_type ''What'' (example_profile 52000 ''101,102''))
         \<noteq> set (codes_of_type ''What'' two_codes_profile)
       \<and> (\<exists>p q. list_all valid_code (codes_of_type ''What'' p @ codes_of_type ''What'' q)
              \<and> set (codes_of_type ''What'' p) \<noteq> set (codes_of_type ''What'' q)
              \<and> generateCacheKey H p [] = generateCacheKey H q [])"
    using generateCacheKey_pigeonhole[of H] by blast
qed

text \<open>
  Claim C1, as amended. The key is the same for two funder-id lists that are permutations
  of each other and for two incomes of the same bucket (both changes at once included).
  When the set of "What" codes or the set of "Who" codes differs between two profiles whose
  codes are not empty and hold no comma, the text that is hashed differs, whatever else the
  profiles and the funder lists are; the keys then differ unless the first 32 characters of
  the two digests coincide.
\<close>

theorem generateCacheKey_stable:
  "(mset fs = mset gs \<and> getIncomeBucket (income_or_zero i) = getIncomeBucket (income_or_zero j)
      \<longrightarrow> generateCacheKey H (p\<lparr>latest_income := i\<rparr>) fs
          = generateCacheKey H (p\<lparr>latest_income := j\<rparr>) gs)
   \<and> (list_all valid_code (codes_of_type ''What'' p @ codes_of_type ''Who'' p)
      \<and> list_all valid_code (codes_of_type ''What'' q @ codes_of_type ''Who'' q)
      \<and> (set (codes_of_type ''What'' p) \<noteq> set (codes_of_type ''What'' q)
         \<or> set (codes_of_type ''Who'' p) \<noteq> set (codes_of_type ''Who'' q))
      \<longrightarrow> dataToHash p fs \<noteq> dataToHash q gs)"
proof (rule conjI; rule impI)
  assume a: "mset fs = mset gs \<and> getIncomeBucket (income_or_zero i) = getIncomeBucket (income_or_zero j)"
  then have "sorted_joined fs = sorted_joined gs" by (intro sorted_joined_perm) simp
  moreover have "charity_details (p\<lparr>latest_income := i\<rparr>) = charity_details (p\<lparr>latest_income := j\<rparr>)"
    using a by (simp add: charity_details_def codes_of_type_def region_names_def)
  ultimately have "dataToHash (p\<lparr>latest_income := i\<rparr>) fs = dataToHash (p\<lparr>latest_income := j\<rparr>) gs"
    by (simp add: dataToHash_def)
  then show "generateCacheKey H (p\<lparr>latest_income := i\<rparr>) fs
          = generateCacheKey H (p\<lparr>latest_income := j\<rparr>) gs"
    by (simp add: generateCacheKey_def)
next
  assume a: "list_all valid_code (codes_of_type ''What'' p @ codes_of_type ''Who'' p)
      \<and> list_all valid_code (codes_of_type ''What'' q @ codes_of_type ''Who'' q)
      \<and> (set (codes_of_type ''What'' p) \<noteq> set (codes_of_type ''What'' q)
         \<or> set (codes_of_type ''Who'' p) \<noteq> set (codes_of_type ''Who'' q))"
  show "dataToHash p fs \<noteq> dataToHash q gs"
  proof
    assume eq: "dataToHash p fs = dataToHash q gs"
    have v: "\<forall>x\<in>set (codes_of_type ''What'' p). valid_code x"
      "\<forall>x\<in>set (codes_of_type ''Who'' p). valid_code x"
      "\<forall>x\<in>set (codes_of_type ''What'' q). valid_code x"
      "\<forall>x\<in>set (codes_of_type ''Who'' q). valid_code x"
      using a by (simp_all add: list_all_iff)
    from dataToHash_fields[OF eq]
    have "sorted_joined (codes_of_type ''What'' p) = sorted_joined (codes_of_type ''What'' q)"
      and "sorted_joined (codes_of_type ''Who'' p) = sorted_joined (codes_of_type ''Who'' q)"
      by (simp_all add: charity_details_def)
    then have "mset (codes_of_type ''What'' p) = mset (codes_of_type ''What'' q)"
      and "mset (codes_of_type ''Who'' p) = mset (codes_of_type ''Who'' q)"
      using v by (blast intro: sorted_joined_set)+
    then have "set (codes_of_type ''What'' p) = set (codes_of_type ''What'' q)"
      and "set (codes_of_type ''Who'' p) = set (codes_of_type ''Who'' q)"
      by (auto dest: mset_eq_setD)
    with a show False by simp
  qed
qed

text \<open>
  The example of the claim: incomes 52,000 and 61,000 (both "small"), the funder list in two
  orders, and a "What" code changed from 101 to 102.
\<close>

lemma ex_income: "(example_profile a w)\<lparr>latest_income := Some b\<rparr> = example_profile b w"
  by (simp add: example_profile_def)

lemma ex_codes:
  "codes_of_type ''What'' (example_profile a w) = [w]"
  "codes_of_type ''Who'' (example_profile a w) = [''201'']"
  by (simp_all add: example_profile_def codes_of_type_def)

theorem generateCacheKey_stable_witness:
  "generateCacheKey (\<lambda>s. s) (example_profile 52000 ''101'') [''GB-CHC-2'', ''GB-CHC-1'']
     = generateCacheKey (\<lambda>s. s) (example_profile 61000 ''101'') [''GB-CHC-1'', ''GB-CHC-2'']
   \<and> dataToHash (example_profile 52000 ''101'') [''GB-CHC-2'', ''GB-CHC-1'']
     \<noteq> dataToHash (example_profile 52000 ''102'') [''GB-CHC-1'', ''GB-CHC-2'']"
proof -
  have b: "getIncomeBucket (income_or_zero (Some 52000)) = getIncomeBucket (income_or_zero (Some 61000))"
    by (simp add: getIncomeBucket_def income_or_zero_def)
  have m: "mset [''GB-CHC-2'', ''GB-CHC-1''] = mset [''GB-CHC-1'', ''GB-CHC-2'']"
    by simp
  have v: "list_all valid_code [''101'', ''201'']" "list_all valid_code [''102'', ''201'']"
    by (simp_all add: valid_code_def)
  have d: "set [''101''] \<noteq> set [''102'']" by simp
  show ?thesis
    using generateCacheKey_stable [of "[''GB-CHC-2'', ''GB-CHC-1'']" "[''GB-CHC-1'', ''GB-CHC-2'']"
      "Some 52000" "Some 61000" "\<lambda>s. s" "example_profile 52000 ''101''"
      "example_profile 52000 ''102''"]
    b m v d
    by (simp only: ex_income ex_codes append.simps simp_thms)
qed

section \<open>Properties of the grant phase\<close>

lemma award_date_grant_row [simp]: "award_date (grant_row f g) = awardDate g"
  by (simp add: grant_row_def)















lemmas example_sync_defs =
  syncGrantsForFunders_def sync_funder_list_def sync_funder_def predates_def truthy_def
  existing_def grant_row_def upsert_grant_def first_org_id_def update_last_grant_made_date_def
  example_date_def example_grant_def example_funder_def example_store_def example_sync_env_def
  example_options_def old_grant_def fetched_grants_def









text \<open>
  Claim C5 does not hold of the code: the date written to the funder is the award date of
  the first grant of the page, \<^verbatim>\<open>grantsResponse.results[0]\<close>, whatever the dates of
  the others. A full sync of a page whose first grant is of 2023-03-01 and whose second is
  of 2024-02-01 leaves the funder with 2023-03-01.
\<close>

theorem last_grant_made_date_first_of_page:
  "syncGrantsForFunders
     (example_sync_env [example_grant ''g-old'' ''2023-03-01'', example_grant ''g-new'' ''2024-02-01''])
     (example_options 10 False) example_store
   = Inr \<lparr> synced = 2, skipped = 0,
           db = \<lparr> organisations = [example_funder\<lparr>last_grant_made_date := Some ''2023-03-01''\<rparr>],
                  grants = [grant_row example_funder (example_grant ''g-old'' ''2023-03-01''),
                            grant_row example_funder (example_grant ''g-new'' ''2024-02-01'')],
                  sync_logs = [], match_cache = [] \<rparr>,
           calls = [UpsertGrant (grant_row example_funder (example_grant ''g-old'' ''2023-03-01'')),
                    UpsertGrant (grant_row example_funder (example_grant ''g-new'' ''2024-02-01''))] \<rparr>
   \<and> example_date ''2023-03-01'' = Some 20230301
   \<and> example_date ''2024-02-01'' = Some 20240201"
  by (simp add: example_sync_defs)

text \<open>In general: the funder gets the award date of the head of the page.\<close>

lemma sync_funder_last_grant_made_date:
  assumes "getGrantsMade E (org_id f) = Inr (g # gs)" and "awardDate g = Some d"
    and "\<not> update_error E (org_id f)"
  shows "organisations (db (sync_funder E opts f st))
       = map (\<lambda>r. if org_id r = org_id f then r\<lparr>last_grant_made_date := Some d\<rparr> else r)
           (organisations (db (sync_page E opts f (g # gs) st)))"
  using assms by (simp add: sync_funder_def update_last_grant_made_date_def Let_def)

section \<open>Properties of the match cache\<close>

lemma unique_keys_filter:
  assumes "unique_keys rows" "e \<in> set rows"
  shows "filter (\<lambda>r. charity_number r = charity_number e \<and> cache_key r = cache_key e) rows = [e]"
  using assms unfolding unique_keys_def
proof (induction rows)
  case Nil
  then show ?case by simp
next
  case (Cons r rows)
  show ?case
  proof (cases "r = e")
    case True
    have "filter (\<lambda>r. charity_number r = charity_number e \<and> cache_key r = cache_key e) rows = []"
      using Cons.prems(1) True by (auto simp: filter_empty_conv image_iff)
    with True show ?thesis by simp
  next
    case False
    with Cons.prems have "e \<in> set rows" by simp
    moreover have "\<not> (charity_number r = charity_number e \<and> cache_key r = cache_key e)"
      using Cons.prems(1) \<open>e \<in> set rows\<close> by (auto simp: image_iff)
    ultimately show ?thesis using Cons by simp
  qed
qed

text \<open>The writes of \<^verbatim>\<open>saveToCache\<close> keep the pairs unique.\<close>

lemma unique_keys_upsert: "unique_keys rows \<Longrightarrow> unique_keys (upsert_cache row rows)"
proof -
  assume u: "unique_keys rows"
  let ?k = "\<lambda>r. (charity_number r, cache_key r)"
  show ?thesis
  proof (cases "\<exists>r \<in> set rows. ?k r = ?k row")
    case True
    have "map ?k (map (\<lambda>r. if charity_number r = charity_number row \<and> cache_key r = cache_key row
                 then row else r) rows) = map ?k rows"
      by (induction rows) auto
    then have "unique_keys (map (\<lambda>r. if charity_number r = charity_number row \<and> cache_key r = cache_key row
                 then row else r) rows)"
      using u unfolding unique_keys_def by (simp only:)
    moreover have "upsert_cache row rows = map (\<lambda>r. if charity_number r = charity_number row \<and> cache_key r = cache_key row
                 then row else r) rows"
      using True by (auto simp: upsert_cache_def)
    ultimately show ?thesis by simp
  next
    case False
    then show ?thesis using u by (auto simp: unique_keys_def upsert_cache_def)
  qed
qed

lemma unique_keys_save:
  "unique_keys (match_cache st) \<Longrightarrow> unique_keys (match_cache (saveToCache lflt wflt t st p key ms))"
  by (cases lflt; cases wflt) (simp_all add: saveToCache_def Let_def unique_keys_upsert)

text \<open>
  Claim C4, as amended. The table holds at most one row for a pair of charity number and
  cache key. When the delete of \<^verbatim>\<open>invalidateCacheBeforeSync\<close> succeeds, an entry stored
  with \<^verbatim>\<open>last_sync_at = T1\<close> is gone after a call with \<open>T2 > T1\<close>: a lookup of its pair
  misses at every time \<open>t\<close>, before its expiry too. When the delete fails, the function
  returns 0 and the table is as it was. In both cases the number returned is the number of
  rows removed.
\<close>

theorem invalidate_then_miss:
  assumes "unique_keys rows" and "e \<in> set rows" and "last_sync_at e = Some T1" and "T1 < T2"
    and "invalidateCacheBeforeSync dflt rows T2 = (n, rows')"
  shows "n = length rows - length rows'
       \<and> (dflt = NoFault \<longrightarrow>
            \<not> hit (checkCache flt t rows' (charity_number e) (cache_key e)) \<and> e \<notin> set rows')
       \<and> (dflt \<noteq> NoFault \<longrightarrow> n = 0 \<and> rows' = rows)"
proof (cases "dflt = NoFault")
  case True
  have rows': "rows' = filter (\<lambda>r. \<not> superseded T2 r) rows"
    and n: "n = length (filter (superseded T2) rows)"
    using assms(5) True by (simp_all add: invalidateCacheBeforeSync_def)
  have sup: "superseded T2 e" using assms(3,4) by (simp add: superseded_def)
  let ?K = "\<lambda>r. charity_number r = charity_number e \<and> cache_key r = cache_key e"
  have "filter (\<lambda>r. ?K r \<and> t < expires_at r) rows'
      = filter (\<lambda>r. \<not> superseded T2 r \<and> t < expires_at r) (filter ?K rows)"
    by (auto simp: rows' intro: filter_cong)
  also have "\<dots> = []"
    using unique_keys_filter[OF assms(1,2)] sup by simp
  finally have "\<not> hit (checkCache flt t rows' (charity_number e) (cache_key e))"
    by (cases flt) (simp_all add: checkCache_def)
  moreover have "e \<notin> set rows'" using sup by (simp add: rows')
  moreover have "n = length rows - length rows'"
    using sum_length_filter_compl[of "superseded T2" rows] by (simp add: rows' n)
  ultimately show ?thesis using True by blast
next
  case False
  then have "n = 0" "rows' = rows"
    using assms(5) by (cases dflt; simp add: invalidateCacheBeforeSync_def)+
  with False show ?thesis by simp
qed

theorem invalidate_then_miss_witness:
  "unique_keys [example_cache_row] \<and> last_sync_at example_cache_row = Some 100
   \<and> invalidateCacheBeforeSync NoFault [example_cache_row] 200 = (1, [])
   \<and> \<not> hit (checkCache NoFault 2000 [] (charity_number example_cache_row)
              (cache_key example_cache_row))
   \<and> 2000 < expires_at example_cache_row"
proof -
  have u: "unique_keys [example_cache_row]" by (simp add: unique_keys_def)
  have l: "last_sync_at example_cache_row = Some 100" by (simp add: example_cache_row_def)
  have i: "invalidateCacheBeforeSync NoFault [example_cache_row] 200 = (1, [])"
    by (simp add: invalidateCacheBeforeSync_def superseded_def example_cache_row_def)
  from invalidate_then_miss [OF u _ l _ i, of NoFault 2000] u l i
  show ?thesis by (simp add: example_cache_row_def)
qed

text \<open>
  The claim as stated fails when the delete fails: the entry of the example, stored with
  \<^verbatim>\<open>last_sync_at = 100\<close>, is still found after a call with the sync date 200.
\<close>

theorem invalidate_then_miss_counterexample:
  "last_sync_at example_cache_row = Some 100 \<and> (100::int) < 200
   \<and> invalidateCacheBeforeSync (ReturnsError ''connection refused'') [example_cache_row] 200
       = (0, [example_cache_row])
   \<and> hit (checkCache NoFault 2000 [example_cache_row] (charity_number example_cache_row)
           (cache_key example_cache_row))"
  by (simp add: invalidateCacheBeforeSync_def checkCache_def example_cache_row_def)

lemma not_superseded_iff:
  "(last_sync_at r = None \<or> (\<exists>t. last_sync_at r = Some t \<and> d \<le> t)) = (\<not> superseded d r)"
  by (cases "last_sync_at r") (auto simp: superseded_def)

text \<open>
  Claim C10. Whatever the sync date is and whether or not the delete succeeds, the rows
  whose \<^verbatim>\<open>last_sync_at\<close> is null or not before the sync date are the same, in the same
  order, before and after \<^verbatim>\<open>invalidateCacheBeforeSync\<close>.
\<close>

theorem invalidate_keeps_null_and_current:
  "filter (\<lambda>r. last_sync_at r = None \<or> (\<exists>t. last_sync_at r = Some t \<and> syncDate \<le> t))
     (snd (invalidateCacheBeforeSync flt rows syncDate))
   = filter (\<lambda>r. last_sync_at r = None \<or> (\<exists>t. last_sync_at r = Some t \<and> syncDate \<le> t)) rows"
  by (cases flt) (simp_all add: invalidateCacheBeforeSync_def not_superseded_iff)

section \<open>Properties of the matching pipeline\<close>

lemma sorted_take: "sorted xs \<Longrightarrow> sorted (take n xs)"
  by (rule sorted_wrt_take)

lemma sorted_desc_iff: "sorted_desc ms = sorted (map (\<lambda>m. - match_score m) ms)"
  by (simp add: sorted_desc_def sorted_map)

lemma sortedMatches_ranked: "ranked (sortedMatches ms)"
  by (simp add: ranked_def sorted_desc_iff sortedMatches_def take_map[symmetric] sorted_wrt_take)

lemma filter_take_prefix: "prefix (filter P (take n xs)) (filter P xs)"
proof -
  have "filter P xs = filter P (take n xs) @ filter P (drop n xs)"
    by (metis append_take_drop_id filter_append)
  then show ?thesis by (simp add: prefix_def)
qed

lemma sortedMatches_stable:
  "prefix (filter (\<lambda>m. match_score m = k) (sortedMatches ms)) (filter (\<lambda>m. match_score m = k) ms)"
proof -
  have "filter (\<lambda>m. - match_score m = - k) (sort_key (\<lambda>m. - match_score m) ms)
      = filter (\<lambda>m. - match_score m = - k) ms"
    by (rule sort_key_stable)
  then have "filter (\<lambda>m. match_score m = k) (sort_key (\<lambda>m. - match_score m) ms)
      = filter (\<lambda>m. match_score m = k) ms" by simp
  then show ?thesis
    using filter_take_prefix[of "\<lambda>m. match_score m = k" 20 "sort_key (\<lambda>m. - match_score m) ms"]
    by (simp add: sortedMatches_def)
qed

lemma sortedMatches_subset: "mset (sortedMatches ms) \<subseteq># mset ms"
proof -
  have "mset (take 20 (sort_key (\<lambda>m. - match_score m) ms)) \<subseteq># mset (sort_key (\<lambda>m. - match_score m) ms)"
    by (metis append_take_drop_id mset_append mset_subset_eq_add_left)
  then show ?thesis by (simp add: sortedMatches_def)
qed

lemma sortedMatches_length: "length (sortedMatches ms) = min 20 (length ms)"
  by (simp add: sortedMatches_def)

lemma sortedMatches_top:
  assumes "a \<in># mset ms - mset (sortedMatches ms)" and "b \<in> set (sortedMatches ms)"
  shows "match_score a \<le> match_score b"
proof -
  let ?s = "sort_key (\<lambda>m. - match_score m) ms"
  have split: "?s = take 20 ?s @ drop 20 ?s" by simp
  have "mset ms = mset (take 20 ?s) + mset (drop 20 ?s)"
    by (metis split mset_append mset_sort)
  then have "mset ms - mset (sortedMatches ms) = mset (drop 20 ?s)"
    by (simp add: sortedMatches_def)
  with assms(1) have a: "a \<in> set (drop 20 ?s)" by simp
  from assms(2) have b: "b \<in> set (take 20 ?s)" by (simp add: sortedMatches_def)
  have "sorted (map (\<lambda>m. - match_score m) ?s)" by simp
  then have "sorted_wrt (\<lambda>x y. - match_score x \<le> - match_score y) ?s"
    by (simp add: sorted_map)
  then have "sorted_wrt (\<lambda>x y. - match_score x \<le> - match_score y) (take 20 ?s @ drop 20 ?s)"
    by simp
  then have "\<forall>x \<in> set (take 20 ?s). \<forall>y \<in> set (drop 20 ?s). - match_score x \<le> - match_score y"
    unfolding sorted_wrt_append by blast
  with a b show ?thesis by auto
qed

lemma cache_ranked_upsert:
  "cache_ranked rows \<Longrightarrow> ranked (matches row) \<Longrightarrow> cache_ranked (upsert_cache row rows)"
  by (auto simp: cache_ranked_def upsert_cache_def list_all_iff)

lemma cache_ranked_save:
  "cache_ranked (match_cache st) \<Longrightarrow> ranked ms \<Longrightarrow>
   cache_ranked (match_cache (saveToCache lflt wflt t st p key ms))"
  by (cases lflt; cases wflt) (simp_all add: saveToCache_def Let_def cache_ranked_upsert)

lemma cache_ranked_invalidate:
  "cache_ranked rows \<Longrightarrow> cache_ranked (snd (invalidateCacheBeforeSync flt rows syncDate))"
  by (cases flt) (auto simp: cache_ranked_def invalidateCacheBeforeSync_def list_all_iff)

lemma checkCache_hit:
  "hit (checkCache flt t rows n key) \<Longrightarrow> result_matches (checkCache flt t rows n key) = Some ms \<Longrightarrow>
   \<exists>r \<in> set rows. matches r = ms \<and> charity_number r = n \<and> cache_key r = key \<and> t < expires_at r"
proof -
  assume h: "hit (checkCache flt t rows n key)" and m: "result_matches (checkCache flt t rows n key) = Some ms"
  let ?sel = "filter (\<lambda>r. charity_number r = n \<and> cache_key r = key \<and> t < expires_at r) rows"
  from h obtain r where sel: "?sel = [r]" and nf: "flt = NoFault"
    by (cases flt; cases ?sel rule: list.exhaust; cases "tl ?sel")
       (auto simp: checkCache_def split: list.splits)
  then have "r \<in> set ?sel" by simp
  moreover have "matches r = ms" using m sel nf by (simp add: checkCache_def)
  ultimately show ?thesis by auto
qed

lemma matchFunders_unfold:
  "matchFunders E p forceRefresh st =
     (case funders_fault E of
        Throws e \<Rightarrow> (Inl (StoreThrew e), st, [QueryFunders])
      | ReturnsError e \<Rightarrow> (Inl (FailedToFetchFunders e), st, [QueryFunders])
      | NoFault \<Rightarrow>
          if query_funders (organisations st) = [] then (Inl NoFundersFound, st, [QueryFunders])
          else (case cache_answer E p forceRefresh st of
                  Some cached \<Rightarrow>
                    (Inr cached, st, [QueryFunders, CacheLookup (match_key E p st)])
                | None \<Rightarrow>
                    (case compute_matches E p (query_funders (organisations st)) (match_key E p st) st of
                       (res, st', evs) \<Rightarrow>
                         (res, st',
                          QueryFunders # (if forceRefresh then [] else [CacheLookup (match_key E p st)])
                            @ evs))))"
  by (auto simp: matchFunders_def cache_answer_def match_key_def Let_def
      split: fault.splits option.splits prod.splits)

lemma compute_matches_unfold:
  "compute_matches E p (query_funders (organisations st)) key st =
     (let queries = map (\<lambda>f. QueryGrants (org_id f)) (query_funders (organisations st));
          userPrompt = buildMatchingPrompt E p (samples E st);
          called = queries @ [BuildPrompt, CallScoring userPrompt]
      in case first_thrown (grants_fault E) (query_funders (organisations st)) of
           Some e \<Rightarrow> (Inl (StoreThrew e), st, queries)
         | None \<Rightarrow>
             (case scoring_service E userPrompt of
                Inl e \<Rightarrow> (Inl (ScoringFailed e), st, called)
              | Inr content \<Rightarrow>
                  (case first_text content of
                     None \<Rightarrow> (Inl NoTextContent, st, called)
                   | Some reply \<Rightarrow>
                       (case parseMatchingResponse (json_parse E) reply (samples E st) of
                          Inl e \<Rightarrow> (Inl e, st, called)
                        | Inr ms \<Rightarrow>
                            (Inr (sortedMatches ms),
                             saveToCache (sync_log_fault E) (cache_write_fault E) (now E) st p key
                               (sortedMatches ms),
                             called @ [SaveToCache key])))))"
  by (simp add: compute_matches_def samples_def Let_def split: option.splits sum.splits)

lemma compute_matches_success:
  assumes "compute_matches E p (query_funders (organisations st)) key st = (Inr ms, st', evs)"
  shows "\<exists>content reply parsed.
           scoring_service E (buildMatchingPrompt E p (samples E st)) = Inr content
         \<and> first_text content = Some reply
         \<and> parseMatchingResponse (json_parse E) reply (samples E st) = Inr parsed
         \<and> ms = sortedMatches parsed
         \<and> st' = saveToCache (sync_log_fault E) (cache_write_fault E) (now E) st p key ms"
  using assms unfolding compute_matches_unfold
  by (auto simp: Let_def split: option.splits sum.splits)

lemma compute_matches_called:
  assumes "compute_matches E p (query_funders (organisations st)) key st = (res, st', evs)"
    and "CallScoring prompt \<in> set evs"
  shows "prompt = buildMatchingPrompt E p (samples E st)
       \<and> first_thrown (grants_fault E) (query_funders (organisations st)) = None"
  using assms unfolding compute_matches_unfold
  by (auto simp: Let_def split: option.splits sum.splits)

lemma those_map_None:
  "x \<in> set xs \<Longrightarrow> f x = None \<Longrightarrow> those (map f xs) = None"
  by (induction xs) (auto split: option.splits)

lemma those_map_Some:
  "those (map f xs) = Some ys \<Longrightarrow> map Some ys = map f xs"
  by (induction xs arbitrary: ys) (auto split: option.splits)

lemma to_funder_match_unknown:
  assumes "item_funder_org_id m \<notin> org_id ` fwg_funder ` set fwgs"
  shows "to_funder_match fwgs m = None"
proof -
  have "find (\<lambda>f. org_id (fwg_funder f) = item_funder_org_id m) fwgs = None"
    using assms by (force simp: find_None_iff)
  then show ?thesis by (simp add: to_funder_match_def)
qed

lemma to_funder_match_known:
  assumes "to_funder_match fwgs m = Some fm"
  shows "org_id (funder fm) = item_funder_org_id m \<and> match_score fm = item_match_score m
       \<and> item_funder_org_id m \<in> org_id ` fwg_funder ` set fwgs"
proof -
  from assms obtain fd where fd: "find (\<lambda>f. org_id (fwg_funder f) = item_funder_org_id m) fwgs = Some fd"
    by (auto simp: to_funder_match_def split: option.splits)
  then have "fd \<in> set fwgs" "org_id (fwg_funder fd) = item_funder_org_id m"
    by (auto simp: find_Some_iff)
  moreover have "org_id (funder fm) = org_id (fwg_funder fd)" "match_score fm = item_match_score m"
    using assms fd by (auto simp: to_funder_match_def)
  ultimately show ?thesis by force
qed

lemma samples_funders: "map fwg_funder (samples E st) = query_funders (organisations st)"
  by (simp add: samples_def grants_sample_def comp_def)

lemma parse_unknown_fails:
  assumes "parse (extract_json text) = Some items"
    and "m \<in> set items" and "item_funder_org_id m \<notin> org_id ` fwg_funder ` set fwgs"
  shows "parseMatchingResponse parse text fwgs = Inl FailedToParse"
  using assms(1) those_map_None[of m items "to_funder_match fwgs", OF assms(2) to_funder_match_unknown[OF assms(3)]]
  by (simp add: parseMatchingResponse_def)

lemma parse_success:
  assumes "parseMatchingResponse parse text fwgs = Inr ms"
  shows "\<exists>items. parse (extract_json text) = Some items
           \<and> map Some ms = map (to_funder_match fwgs) items"
  using assms
  by (auto simp: parseMatchingResponse_def those_map_Some split: option.splits)

lemma query_funders_none:
  "\<forall>r \<in> set orgs. \<not> is_funder r \<Longrightarrow> query_funders orgs = []"
proof -
  assume "\<forall>r \<in> set orgs. \<not> is_funder r"
  then have "filter is_funder orgs = []" by (simp add: filter_empty_conv)
  then show ?thesis by (simp add: query_funders_def order_desc_def)
qed

text \<open>
  Claim C9, as amended. When no organisation of the store is flagged as a funder,
  \<^verbatim>\<open>matchFunders\<close> fails, leaves the store as it is, builds no prompt and makes no call
  to the scoring service; its only call is the funder query. When that query succeeds, the
  error is the no-funders error. When the query itself fails, the error is that failure:
  for a query that returns an error \<open>e\<close>, the error \<^verbatim>\<open>Failed to fetch funders\<close> with the
  message \<open>e\<close>; for a query that throws \<open>e\<close>, what it threw.
\<close>

theorem no_funders_no_scoring:
  assumes "\<forall>r \<in> set (organisations st). \<not> is_funder r"
  shows "(funders_fault E = NoFault \<longrightarrow>
            matchFunders E p forceRefresh st = (Inl NoFundersFound, st, [QueryFunders]))
       \<and> (\<forall>e. funders_fault E = ReturnsError e \<longrightarrow>
            matchFunders E p forceRefresh st = (Inl (FailedToFetchFunders e), st, [QueryFunders]))
       \<and> (\<forall>e. funders_fault E = Throws e \<longrightarrow>
            matchFunders E p forceRefresh st = (Inl (StoreThrew e), st, [QueryFunders]))
       \<and> (\<exists>e. fst (matchFunders E p forceRefresh st) = Inl e)
       \<and> fst (snd (matchFunders E p forceRefresh st)) = st
       \<and> BuildPrompt \<notin> set (snd (snd (matchFunders E p forceRefresh st)))
       \<and> (\<forall>q. CallScoring q \<notin> set (snd (snd (matchFunders E p forceRefresh st))))"
  using query_funders_none[OF assms]
  by (cases "funders_fault E") (simp_all add: matchFunders_unfold)

text \<open>
  Claim C6. Take a call of \<^verbatim>\<open>matchFunders\<close> that called the scoring service, whose
  answer has a text block that decodes to a list of items. If one of the items names a
  funder that is not among the funders queried in step 1, the call fails with the parse
  error and writes nothing to the cache. If the call returns a list, every item was
  resolved: the list is the ranking of the matches made of all the items, one for each.
\<close>

theorem unknown_funder_fails_parse:
  assumes run: "matchFunders E p forceRefresh st = (res, st', tr)"
    and called: "CallScoring prompt \<in> set tr"
    and resp: "scoring_service E prompt = Inr content" "first_text content = Some reply"
    and dec: "json_parse E (extract_json reply) = Some items"
  shows "((\<exists>m \<in> set items. item_funder_org_id m \<notin> org_id ` set (query_funders (organisations st)))
            \<longrightarrow> res = Inl FailedToParse \<and> st' = st)
       \<and> (\<forall>ms. res = Inr ms \<longrightarrow>
            (\<exists>parsed. map Some parsed = map (to_funder_match (samples E st)) items
                     \<and> ms = sortedMatches parsed))"
proof -
  let ?fs = "query_funders (organisations st)"
  let ?key = "match_key E p st"
  obtain evs where cm: "compute_matches E p ?fs ?key st = (res, st', evs)"
    and ev: "CallScoring prompt \<in> set evs"
    using run called unfolding matchFunders_unfold
    by (auto split: fault.splits if_splits option.splits prod.splits)
  from compute_matches_called[OF cm ev]
  have pr: "prompt = buildMatchingPrompt E p (samples E st)"
    and nt: "first_thrown (grants_fault E) ?fs = None" by simp_all
  have out: "(res, st', evs) =
      (case parseMatchingResponse (json_parse E) reply (samples E st) of
         Inl e \<Rightarrow> (Inl e, st, map (\<lambda>f. QueryGrants (org_id f)) ?fs @ [BuildPrompt, CallScoring prompt])
       | Inr ms \<Rightarrow> (Inr (sortedMatches ms),
                    saveToCache (sync_log_fault E) (cache_write_fault E) (now E) st p ?key
                      (sortedMatches ms),
                    (map (\<lambda>f. QueryGrants (org_id f)) ?fs @ [BuildPrompt, CallScoring prompt])
                      @ [SaveToCache ?key]))"
    using cm resp nt unfolding compute_matches_unfold pr[symmetric] by (simp add: Let_def)
  have fs: "org_id ` fwg_funder ` set (samples E st) = org_id ` set ?fs"
    using samples_funders[of E st] by (metis image_set)
  have one: "res = Inl FailedToParse \<and> st' = st"
    if "\<exists>m \<in> set items. item_funder_org_id m \<notin> org_id ` set ?fs"
  proof -
    from that obtain m where "m \<in> set items" "item_funder_org_id m \<notin> org_id ` fwg_funder ` set (samples E st)"
      using fs by auto
    from parse_unknown_fails[of "json_parse E" reply items m "samples E st", OF dec this] out
    show ?thesis by simp
  qed
  have two: "\<exists>parsed. map Some parsed = map (to_funder_match (samples E st)) items
                     \<and> ms = sortedMatches parsed" if "res = Inr ms" for ms
  proof -
    from that out obtain parsed where p: "parseMatchingResponse (json_parse E) reply (samples E st) = Inr parsed"
      and "ms = sortedMatches parsed"
      by (cases "parseMatchingResponse (json_parse E) reply (samples E st)") auto
    moreover from parse_success[OF p] dec
    have "map Some parsed = map (to_funder_match (samples E st)) items" by auto
    ultimately show ?thesis by blast
  qed
  from one two show ?thesis by blast
qed

lemma parsed_scores:
  assumes "map Some parsed = map (to_funder_match fwgs) items"
  shows "map match_score parsed = map item_match_score items
       \<and> map (\<lambda>m. org_id (funder m)) parsed = map item_funder_org_id items"
  using assms
proof (induction parsed arbitrary: items)
  case Nil
  then show ?case by simp
next
  case (Cons m parsed)
  then obtain i rest where items: "items = i # rest" "to_funder_match fwgs i = Some m"
    "map Some parsed = map (to_funder_match fwgs) rest"
    by (cases items) auto
  from to_funder_match_known[OF items(2)] Cons.IH[OF items(3)] items(1)
  show ?case by simp
qed

text \<open>
  Claim C7. Every cached list was written by \<^verbatim>\<open>saveToCache\<close>, so it is in descending
  order of score and has at most 20 elements (\<^const>\<open>cache_ranked\<close>); a call keeps the
  cache so. Then the list that \<^verbatim>\<open>matchFunders\<close> returns is in descending order of score
  and has at most 20 elements. When the call asked the scoring service, the list is the top
  20 of the response: the response decodes to a list of items, each of which gives one
  match, with its score and its funder; the list returned has 20 of these matches, or all
  of them when they are fewer; it holds no match that is not among them, and none more
  often; no match left out has a higher score than a match of the list; and the matches of
  any one score stand in the list in the order they have in the response, the first of
  them when not all are kept.
\<close>

theorem matchFunders_ranked:
  assumes inv: "cache_ranked (match_cache st)"
    and run: "matchFunders E p forceRefresh st = (Inr ms, st', tr)"
  shows "sorted_desc ms \<and> length ms \<le> 20 \<and> cache_ranked (match_cache st')
       \<and> (\<forall>q. CallScoring q \<in> set tr \<longrightarrow>
            (\<exists>content reply items parsed.
               scoring_service E q = Inr content \<and> first_text content = Some reply
             \<and> json_parse E (extract_json reply) = Some items
             \<and> parseMatchingResponse (json_parse E) reply (samples E st) = Inr parsed
             \<and> map Some parsed = map (to_funder_match (samples E st)) items
             \<and> map match_score parsed = map item_match_score items
             \<and> map (\<lambda>m. org_id (funder m)) parsed = map item_funder_org_id items
             \<and> length ms = min 20 (length parsed)
             \<and> mset ms \<subseteq># mset parsed
             \<and> (\<forall>a \<in># mset parsed - mset ms. \<forall>b \<in> set ms. match_score a \<le> match_score b)
             \<and> (\<forall>k. prefix (filter (\<lambda>m. match_score m = k) ms)
                            (filter (\<lambda>m. match_score m = k) parsed))))"
proof -
  let ?fs = "query_funders (organisations st)"
  let ?key = "match_key E p st"
  consider (cached) "cache_answer E p forceRefresh st = Some ms" "st' = st"
      "tr = [QueryFunders, CacheLookup ?key]"
    | (computed) evs where "compute_matches E p ?fs ?key st = (Inr ms, st', evs)"
      "tr = QueryFunders # (if forceRefresh then [] else [CacheLookup ?key]) @ evs"
    using run unfolding matchFunders_unfold
    by (auto split: fault.splits if_splits option.splits prod.splits)
  then show ?thesis
  proof cases
    case cached
    then have h: "hit (checkCache (cache_read_fault E) (now E) (match_cache st) (reg_charity_number p) ?key)"
      and m: "result_matches (checkCache (cache_read_fault E) (now E) (match_cache st) (reg_charity_number p) ?key) = Some ms"
      by (auto simp: cache_answer_def Let_def split: if_splits)
    from checkCache_hit[OF h m] obtain r where "r \<in> set (match_cache st)" "matches r = ms" by blast
    with inv have "ranked ms" by (auto simp: cache_ranked_def list_all_iff)
    with cached inv show ?thesis by (simp add: ranked_def)
  next
    case computed
    from compute_matches_success[OF computed(1)] obtain content reply parsed
      where c: "scoring_service E (buildMatchingPrompt E p (samples E st)) = Inr content"
        "first_text content = Some reply"
        "parseMatchingResponse (json_parse E) reply (samples E st) = Inr parsed"
        "ms = sortedMatches parsed"
        "st' = saveToCache (sync_log_fault E) (cache_write_fault E) (now E) st p ?key ms"
      by blast
    from parse_success[OF c(3)] obtain items
      where i: "json_parse E (extract_json reply) = Some items"
        "map Some parsed = map (to_funder_match (samples E st)) items"
      by blast
    note sc = parsed_scores[OF i(2)]
    have r: "ranked ms" using c(4) sortedMatches_ranked by simp
    then have cr: "cache_ranked (match_cache st')" using c(5) inv cache_ranked_save by simp
    have q: "q = buildMatchingPrompt E p (samples E st)" if "CallScoring q \<in> set tr" for q
    proof -
      from that computed(2) have "CallScoring q \<in> set evs" by (auto split: if_splits)
      from compute_matches_called[OF computed(1) this] show ?thesis by simp
    qed
    have len: "length ms = min 20 (length parsed)"
      using c(4) sortedMatches_length by simp
    have sub: "mset ms \<subseteq># mset parsed"
      using c(4) sortedMatches_subset by simp
    have top: "\<forall>a \<in># mset parsed - mset ms. \<forall>b \<in> set ms. match_score a \<le> match_score b"
      using c(4) sortedMatches_top by blast
    have st: "\<forall>k. prefix (filter (\<lambda>m. match_score m = k) ms) (filter (\<lambda>m. match_score m = k) parsed)"
      using c(4) sortedMatches_stable by simp
    have "\<exists>content reply items parsed.
               scoring_service E q = Inr content \<and> first_text content = Some reply
             \<and> json_parse E (extract_json reply) = Some items
             \<and> parseMatchingResponse (json_parse E) reply (samples E st) = Inr parsed
             \<and> map Some parsed = map (to_funder_match (samples E st)) items
             \<and> map match_score parsed = map item_match_score items
             \<and> map (\<lambda>m. org_id (funder m)) parsed = map item_funder_org_id items
             \<and> length ms = min 20 (length parsed)
             \<and> mset ms \<subseteq># mset parsed
             \<and> (\<forall>a \<in># mset parsed - mset ms. \<forall>b \<in> set ms. match_score a \<le> match_score b)
             \<and> (\<forall>k. prefix (filter (\<lambda>m. match_score m = k) ms)
                            (filter (\<lambda>m. match_score m = k) parsed))"
      if "CallScoring q \<in> set tr" for q
      using q[OF that] c(1,2,3) i sc len sub top st by blast
    with r cr show ?thesis by (simp add: ranked_def)
  qed
qed

lemma compute_matches_value:
  assumes "sha256_hex E' = sha256_hex E" "json_parse E' = json_parse E"
    "buildMatchingPrompt E' = buildMatchingPrompt E" "scoring_service E' = scoring_service E"
    "grants_fault E' = grants_fault E" "grants st' = grants st"
  shows "fst (compute_matches E' p fs key st') = fst (compute_matches E p fs key st)"
  using assms
  by (simp add: compute_matches_def Let_def split: option.splits sum.splits)

lemmas example_match_defs =
  example_match_env_def example_match_store_def example_funder_def example_item_def
  example_match_def example_breakdown_def

lemma example_query_funders:
  "query_funders (organisations example_match_store) = [example_funder]"
  by (simp add: query_funders_def order_desc_def funder_grant_count_def example_match_defs)

lemma example_samples:
  "samples (example_match_env items) example_match_store
   = [\<lparr> fwg_funder = example_funder, fwg_grants = [] \<rparr>]"
  by (simp add: samples_def example_query_funders grants_sample_def order_desc_def)
     (simp add: example_match_defs)

lemma example_parse:
  "parseMatchingResponse (\<lambda>_. Some [example_item ''GB-CHC-1'' 70 ''a'',
       example_item ''GB-CHC-1'' 90 ''b'', example_item ''GB-CHC-1'' 70 ''c''])
     ''reply'' [\<lparr> fwg_funder = example_funder, fwg_grants = [] \<rparr>]
   = Inr [example_match 70 ''a'', example_match 90 ''b'', example_match 70 ''c'']"
  by (simp add: parseMatchingResponse_def to_funder_match_def example_match_defs)

lemma example_match_key:
  "match_key (example_match_env items) (example_profile 52000 ''101'') example_match_store = example_key"
  by (simp add: match_key_def example_key_def example_match_env_def)

lemma example_ranking:
  "sortedMatches [example_match 70 ''a'', example_match 90 ''b'', example_match 70 ''c'']
   = [example_match 90 ''b'', example_match 70 ''a'', example_match 70 ''c'']"
  by (simp add: sortedMatches_def example_match_defs)

lemma example_compute:
  "compute_matches
     (example_match_env [example_item ''GB-CHC-1'' 70 ''a'', example_item ''GB-CHC-1'' 90 ''b'',
        example_item ''GB-CHC-1'' 70 ''c''])
     (example_profile 52000 ''101'') (query_funders (organisations example_match_store))
     example_key example_match_store
   = (Inr [example_match 90 ''b'', example_match 70 ''a'', example_match 70 ''c''],
      example_match_store\<lparr>match_cache :=
        [\<lparr> charity_number = 1234567, cache_key = example_key,
            cached_charity_name = ''Example Charity'',
            matches = [example_match 90 ''b'', example_match 70 ''a'', example_match 70 ''c''],
            funder_count = 3, last_sync_at = Some 100, created_at = 1000,
            expires_at = 604801000 \<rparr>]\<rparr>,
      [QueryGrants ''GB-CHC-1'', BuildPrompt, CallScoring ''prompt'', SaveToCache example_key])"
proof -
  have save: "saveToCache NoFault NoFault 1000 example_match_store (example_profile 52000 ''101'')
      example_key ms
    = example_match_store\<lparr>match_cache :=
        [\<lparr> charity_number = 1234567, cache_key = example_key,
            cached_charity_name = ''Example Charity'', matches = ms,
            funder_count = length ms, last_sync_at = Some 100, created_at = 1000,
            expires_at = 604801000 \<rparr>]\<rparr>" for ms
    by (simp add: saveToCache_def last_completed_sync_def order_desc_def upsert_cache_def
        CACHE_TTL_DAYS_def ms_per_day_def example_match_store_def example_profile_def)
  show ?thesis
    unfolding compute_matches_unfold example_samples
    by (simp add: example_query_funders first_thrown_def List.map_filter_def
        example_match_env_def example_parse example_ranking save)
       (simp add: example_funder_def)
qed

lemma example_match_run:
  "matchFunders
     (example_match_env [example_item ''GB-CHC-1'' 70 ''a'', example_item ''GB-CHC-1'' 90 ''b'',
        example_item ''GB-CHC-1'' 70 ''c''])
     (example_profile 52000 ''101'') False example_match_store
   = (Inr [example_match 90 ''b'', example_match 70 ''a'', example_match 70 ''c''],
      example_match_store\<lparr>match_cache :=
        [\<lparr> charity_number = 1234567, cache_key = example_key,
            cached_charity_name = ''Example Charity'',
            matches = [example_match 90 ''b'', example_match 70 ''a'', example_match 70 ''c''],
            funder_count = 3, last_sync_at = Some 100, created_at = 1000,
            expires_at = 604801000 \<rparr>]\<rparr>,
      [QueryFunders, CacheLookup example_key, QueryGrants ''GB-CHC-1'', BuildPrompt,
       CallScoring ''prompt'', SaveToCache example_key])"
proof -
  have miss: "cache_answer (example_match_env items) (example_profile 52000 ''101'') False
      example_match_store = None" for items
    by (simp add: cache_answer_def checkCache_def example_match_store_def example_match_env_def)
  have nf: "funders_fault (example_match_env items) = NoFault" for items
    by (simp add: example_match_env_def)
  show ?thesis
    unfolding matchFunders_unfold example_match_key
    by (simp add: nf miss example_compute) (simp add: example_query_funders)
qed

lemma example_env_simps:
  "sha256_hex (example_match_env items) = (\<lambda>s. s)"
  "json_parse (example_match_env items) = (\<lambda>_. Some items)"
  "buildMatchingPrompt (example_match_env items) = (\<lambda>_ _. ''prompt'')"
  "scoring_service (example_match_env items) = (\<lambda>_. Inr [TextBlock ''reply''])"
  "now (example_match_env items) = 1000"
  "funders_fault (example_match_env items) = NoFault"
  "grants_fault (example_match_env items) = (\<lambda>_. NoFault)"
  "cache_read_fault (example_match_env items) = NoFault"
  "sync_log_fault (example_match_env items) = NoFault"
  "cache_write_fault (example_match_env items) = NoFault"
  by (simp_all add: example_match_env_def)

theorem matchFunders_ranked_witness:
  "cache_ranked (match_cache example_match_store)
   \<and> matchFunders
        (example_match_env [example_item ''GB-CHC-1'' 70 ''a'', example_item ''GB-CHC-1'' 90 ''b'',
        example_item ''GB-CHC-1'' 70 ''c''])
        (example_profile 52000 ''101'') False example_match_store
      = (Inr [example_match 90 ''b'', example_match 70 ''a'', example_match 70 ''c''],
         example_match_store\<lparr>match_cache :=
           [\<lparr> charity_number = 1234567, cache_key = example_key,
               cached_charity_name = ''Example Charity'',
               matches = [example_match 90 ''b'', example_match 70 ''a'', example_match 70 ''c''],
               funder_count = 3, last_sync_at = Some 100, created_at = 1000,
               expires_at = 604801000 \<rparr>]\<rparr>,
         [QueryFunders, CacheLookup example_key, QueryGrants ''GB-CHC-1'', BuildPrompt,
          CallScoring ''prompt'', SaveToCache example_key])
   \<and> sorted_desc [example_match 90 ''b'', example_match 70 ''a'', example_match 70 ''c'']
   \<and> length [example_match 90 ''b'', example_match 70 ''a'', example_match 70 ''c'']
       = min 20 (length [example_match 70 ''a'', example_match 90 ''b'', example_match 70 ''c''])
   \<and> mset [example_match 90 ''b'', example_match 70 ''a'', example_match 70 ''c'']
       \<subseteq># mset [example_match 70 ''a'', example_match 90 ''b'', example_match 70 ''c'']
   \<and> prefix (filter (\<lambda>m. match_score m = 70)
               [example_match 90 ''b'', example_match 70 ''a'', example_match 70 ''c''])
            (filter (\<lambda>m. match_score m = 70)
               [example_match 70 ''a'', example_match 90 ''b'', example_match 70 ''c''])"
proof -
  let ?E = "example_match_env [example_item ''GB-CHC-1'' 70 ''a'', example_item ''GB-CHC-1'' 90 ''b'',
        example_item ''GB-CHC-1'' 70 ''c'']"
  let ?ms = "[example_match 90 ''b'', example_match 70 ''a'', example_match 70 ''c'']"
  have inv: "cache_ranked (match_cache example_match_store)"
    by (simp add: cache_ranked_def example_match_store_def)
  have called: "CallScoring ''prompt'' \<in> set [QueryFunders, CacheLookup example_key,
      QueryGrants ''GB-CHC-1'', BuildPrompt, CallScoring ''prompt'', SaveToCache example_key]"
    by simp
  from matchFunders_ranked [OF inv example_match_run] called
  obtain parsed where
    "sorted_desc ?ms"
    "parseMatchingResponse (json_parse ?E) ''reply'' (samples ?E example_match_store) = Inr parsed"
    "length ?ms = min 20 (length parsed)"
    "mset ?ms \<subseteq># mset parsed"
    "prefix (filter (\<lambda>m. match_score m = 70) ?ms) (filter (\<lambda>m. match_score m = 70) parsed)"
    by (auto simp: example_env_simps)
  moreover from this(2) have "parsed = [example_match 70 ''a'', example_match 90 ''b'', example_match 70 ''c'']"
    by (simp add: example_samples example_env_simps example_parse)
  ultimately show ?thesis using inv example_match_run by simp
qed

text \<open>
  Of 21 matches with the scores 0 to 20, the ranking keeps the 20 with the scores 20 down
  to 1.
\<close>

lemma example_truncation:
  "sortedMatches (map (\<lambda>i. example_match (int i) ''r'') [0..<21])
   = map (\<lambda>i. example_match (int i) ''r'') (rev [1..<21])"
  by code_simp

lemma example_unknown_run:
  "matchFunders
     (example_match_env [example_item ''GB-CHC-1'' 70 ''a'', example_item ''GB-CHC-7'' 90 ''b''])
     (example_profile 52000 ''101'') False example_match_store
   = (Inl FailedToParse, example_match_store,
      [QueryFunders, CacheLookup example_key, QueryGrants ''GB-CHC-1'', BuildPrompt,
       CallScoring ''prompt''])"
proof -
  let ?E = "example_match_env [example_item ''GB-CHC-1'' 70 ''a'', example_item ''GB-CHC-7'' 90 ''b'']"
  have miss: "cache_answer ?E (example_profile 52000 ''101'') False example_match_store = None"
    by (simp add: cache_answer_def checkCache_def example_match_store_def example_match_env_def)
  have parse: "parseMatchingResponse
      (\<lambda>_. Some [example_item ''GB-CHC-1'' 70 ''a'', example_item ''GB-CHC-7'' 90 ''b'']) ''reply''
      [\<lparr> fwg_funder = example_funder, fwg_grants = [] \<rparr>] = Inl FailedToParse"
    by (simp add: parseMatchingResponse_def to_funder_match_def example_match_defs)
  have "compute_matches ?E (example_profile 52000 ''101'')
      (query_funders (organisations example_match_store)) example_key example_match_store
    = (Inl FailedToParse, example_match_store,
       [QueryGrants ''GB-CHC-1'', BuildPrompt, CallScoring ''prompt''])"
    unfolding compute_matches_unfold example_samples
    by (simp add: example_env_simps parse example_query_funders first_thrown_def
        List.map_filter_def)
       (simp add: example_funder_def)
  then show ?thesis
    unfolding matchFunders_unfold example_match_key
    by (simp add: miss example_env_simps) (simp add: example_query_funders)
qed

theorem unknown_funder_fails_parse_witness:
  "matchFunders
     (example_match_env [example_item ''GB-CHC-1'' 70 ''a'', example_item ''GB-CHC-7'' 90 ''b''])
     (example_profile 52000 ''101'') False example_match_store
   = (Inl FailedToParse, example_match_store,
      [QueryFunders, CacheLookup example_key, QueryGrants ''GB-CHC-1'', BuildPrompt,
       CallScoring ''prompt''])
   \<and> ''GB-CHC-7'' \<notin> org_id ` set (query_funders (organisations example_match_store))
   \<and> Inl FailedToParse = (Inl FailedToParse :: match_error + FunderMatch list)"
proof -
  let ?items = "[example_item ''GB-CHC-1'' 70 ''a'', example_item ''GB-CHC-7'' 90 ''b'']"
  have called: "CallScoring ''prompt'' \<in> set [QueryFunders, CacheLookup example_key,
      QueryGrants ''GB-CHC-1'', BuildPrompt, CallScoring ''prompt'']"
    by simp
  have resp: "scoring_service (example_match_env ?items) ''prompt'' = Inr [TextBlock ''reply'']"
    "first_text [TextBlock ''reply''] = Some ''reply''"
    "json_parse (example_match_env ?items) (extract_json ''reply'') = Some ?items"
    by (simp_all add: example_match_env_def)
  have unk: "''GB-CHC-7'' \<notin> org_id ` set (query_funders (organisations example_match_store))"
    by (simp add: example_query_funders example_funder_def)
  from unknown_funder_fails_parse [OF example_unknown_run called resp] unk example_unknown_run
  show ?thesis by simp
qed

theorem no_funders_no_scoring_witness:
  "matchFunders (example_match_env []) (example_profile 52000 ''101'') False no_funder_store
     = (Inl NoFundersFound, no_funder_store, [QueryFunders])
   \<and> BuildPrompt \<notin> set (snd (snd (matchFunders (example_match_env [])
         (example_profile 52000 ''101'') False no_funder_store)))
   \<and> matchFunders ((example_match_env [])\<lparr>funders_fault := Throws ''connection refused''\<rparr>)
       (example_profile 52000 ''101'') False no_funder_store
     = (Inl (StoreThrew ''connection refused''), no_funder_store, [QueryFunders])"
  using no_funders_no_scoring [of no_funder_store "example_match_env []"
      "example_profile 52000 ''101''" False]
    no_funders_no_scoring [of no_funder_store
      "(example_match_env [])\<lparr>funders_fault := Throws ''connection refused''\<rparr>"
      "example_profile 52000 ''101''" False]
  by (simp add: no_funder_store_def example_match_env_def)

text \<open>
  The claim as stated fails when the funder query fails: the store of the example holds no
  funder, and the error is the failure of the query.
\<close>

theorem no_funders_no_scoring_counterexample:
  "list_all (\<lambda>r. \<not> is_funder r) (organisations no_funder_store)
   \<and> matchFunders ((example_match_env [])\<lparr>funders_fault := ReturnsError ''timeout''\<rparr>)
       (example_profile 52000 ''101'') False no_funder_store
     = (Inl (FailedToFetchFunders ''timeout''), no_funder_store, [QueryFunders])"
  by (simp add: matchFunders_def no_funder_store_def)

lemma checkCache_fault_miss:
  "flt \<noteq> NoFault \<Longrightarrow> checkCache flt t rows n key = checkCache NoFault t [] n key"
  by (cases flt) (simp_all add: checkCache_def)

lemma matchFunders_value:
  "fst (matchFunders E p forceRefresh st) =
     (case funders_fault E of
        Throws e \<Rightarrow> Inl (StoreThrew e)
      | ReturnsError e \<Rightarrow> Inl (FailedToFetchFunders e)
      | NoFault \<Rightarrow>
          if query_funders (organisations st) = [] then Inl NoFundersFound
          else (case cache_answer E p forceRefresh st of
                  Some cached \<Rightarrow> Inr cached
                | None \<Rightarrow>
                    fst (compute_matches E p (query_funders (organisations st))
                           (match_key E p st) st)))"
  by (simp add: matchFunders_unfold split: fault.splits option.splits prod.splits)

text \<open>
  Claim C8, as amended. A failure of the cache lookup, returned or thrown, gives the call
  the outcome it has on an empty cache with a working lookup: it counts as a miss, and the
  computation proceeds. A failure of the write-through (of the sync-log query or of the
  upsert, returned or thrown) changes neither the list returned nor the error thrown.
\<close>

theorem cache_failures_swallowed:
  "fst (matchFunders (E\<lparr>cache_read_fault := ReturnsError e\<rparr>) p forceRefresh st)
     = fst (matchFunders (E\<lparr>cache_read_fault := NoFault\<rparr>) p forceRefresh (st\<lparr>match_cache := []\<rparr>))
   \<and> fst (matchFunders (E\<lparr>cache_read_fault := Throws e\<rparr>) p forceRefresh st)
     = fst (matchFunders (E\<lparr>cache_read_fault := NoFault\<rparr>) p forceRefresh (st\<lparr>match_cache := []\<rparr>))
   \<and> fst (matchFunders (E\<lparr>sync_log_fault := lflt, cache_write_fault := wflt\<rparr>) p forceRefresh st)
     = fst (matchFunders (E\<lparr>sync_log_fault := NoFault, cache_write_fault := NoFault\<rparr>) p forceRefresh st)"
proof -
  have rd: "fst (matchFunders (E\<lparr>cache_read_fault := flt\<rparr>) p forceRefresh st)
     = fst (matchFunders (E\<lparr>cache_read_fault := NoFault\<rparr>) p forceRefresh (st\<lparr>match_cache := []\<rparr>))"
    if "flt \<noteq> NoFault" for flt
  proof -
    have k: "match_key (E\<lparr>cache_read_fault := f\<rparr>) p (st\<lparr>match_cache := c\<rparr>) = match_key E p st"
      "match_key (E\<lparr>cache_read_fault := f\<rparr>) p st = match_key E p st" for f c
      by (simp_all add: match_key_def)
    have a: "cache_answer (E\<lparr>cache_read_fault := flt\<rparr>) p forceRefresh st
        = cache_answer (E\<lparr>cache_read_fault := NoFault\<rparr>) p forceRefresh (st\<lparr>match_cache := []\<rparr>)"
      using that by (simp add: cache_answer_def checkCache_fault_miss k)
    have c: "fst (compute_matches (E\<lparr>cache_read_fault := flt\<rparr>) p fs key st)
        = fst (compute_matches (E\<lparr>cache_read_fault := NoFault\<rparr>) p fs key (st\<lparr>match_cache := []\<rparr>))"
      for fs key
      by (rule compute_matches_value) simp_all
    show ?thesis
      by (cases "funders_fault E") (simp_all add: matchFunders_value a c k split: option.splits)
  qed
  have wr: "fst (matchFunders (E\<lparr>sync_log_fault := lflt, cache_write_fault := wflt\<rparr>) p forceRefresh st)
     = fst (matchFunders (E\<lparr>sync_log_fault := NoFault, cache_write_fault := NoFault\<rparr>) p forceRefresh st)"
  proof -
    have k: "match_key (E\<lparr>sync_log_fault := l, cache_write_fault := w\<rparr>) p st = match_key E p st" for l w
      by (simp add: match_key_def)
    have a: "cache_answer (E\<lparr>sync_log_fault := l, cache_write_fault := w\<rparr>) p forceRefresh st
        = cache_answer E p forceRefresh st" for l w
      by (simp add: cache_answer_def k)
    have c: "fst (compute_matches (E\<lparr>sync_log_fault := lflt, cache_write_fault := wflt\<rparr>) p fs key st)
        = fst (compute_matches (E\<lparr>sync_log_fault := NoFault, cache_write_fault := NoFault\<rparr>) p fs key st)"
      for fs key
      by (rule compute_matches_value) simp_all
    show ?thesis
      by (cases "funders_fault E") (simp_all add: matchFunders_value a c k split: option.splits)
  qed
  from rd[of "ReturnsError e"] rd[of "Throws e"] wr show ?thesis by simp
qed

text \<open>
  The claim as stated fails when the lookup fails for an entry that the cache holds and the
  computation fails too: with the scoring service down, the call that a working cache
  answers from the stored entry fails.
\<close>

lemma cached_store_key:
  "match_key (scoring_down_env\<lparr>cache_read_fault := flt\<rparr>) (example_profile 52000 ''101'') cached_store
   = example_key"
  by (simp add: match_key_def example_key_def scoring_down_env_def example_match_env_def
      cached_store_def)

lemma cached_store_funders: "query_funders (organisations cached_store) = [example_funder]"
  using example_query_funders by (simp add: cached_store_def)

theorem cache_failures_swallowed_counterexample:
  "fst (matchFunders scoring_down_env (example_profile 52000 ''101'') False cached_store)
     = Inr [example_match 90 ''first'']
   \<and> fst (matchFunders (scoring_down_env\<lparr>cache_read_fault := Throws ''connection refused''\<rparr>)
          (example_profile 52000 ''101'') False cached_store)
     = Inl (ScoringFailed ''overloaded'')"
proof -
  have k: "match_key scoring_down_env (example_profile 52000 ''101'') cached_store = example_key"
    using cached_store_key[of "cache_read_fault scoring_down_env"] by simp
  have h: "cache_answer scoring_down_env (example_profile 52000 ''101'') False cached_store
      = Some [example_match 90 ''first'']"
    unfolding cache_answer_def k
    by (simp add: checkCache_def scoring_down_env_def example_match_env_def cached_store_def
        example_cache_row_def example_profile_def)
  have m: "cache_answer (scoring_down_env\<lparr>cache_read_fault := Throws ''connection refused''\<rparr>)
      (example_profile 52000 ''101'') False cached_store = None"
    by (simp add: cache_answer_def checkCache_def)
  have c: "fst (compute_matches (scoring_down_env\<lparr>cache_read_fault := Throws ''connection refused''\<rparr>)
      (example_profile 52000 ''101'') [example_funder] example_key cached_store)
      = Inl (ScoringFailed ''overloaded'')"
    by (simp add: compute_matches_def first_thrown_def List.map_filter_def scoring_down_env_def
        example_match_env_def)
  have f: "funders_fault (scoring_down_env\<lparr>cache_read_fault := flt\<rparr>) = NoFault"
    "funders_fault scoring_down_env = NoFault" for flt
    by (simp_all add: scoring_down_env_def example_match_env_def)
  show ?thesis
    by (simp add: matchFunders_value f cached_store_funders h m c cached_store_key)
qed

section \<open>Properties of the rate limiter\<close>

lemma paced_snoc:
  "paced (xs @ [y]) = (paced xs \<and> (xs = [] \<or> snd (last xs) + RATE_LIMIT_DELAY \<le> snd y))"
  by (induction xs rule: paced.induct) auto

lemma inv_new: "limiter_inv new_limiter"
  by (simp add: limiter_inv_def new_limiter_def last_start_ok_def)

lemma last_start_ok_last:
  "last_start_ok s = (starts s = [] \<or>
      (snd (last (starts s)) \<le> clock s
       \<and> (\<forall>d \<in> set (timers s). snd (last (starts s)) + RATE_LIMIT_DELAY \<le> d)
       \<and> (\<not> processing s \<longrightarrow> snd (last (starts s)) + RATE_LIMIT_DELAY \<le> clock s)))"
  by (cases "starts s" rule: rev_cases) (auto simp: last_start_ok_def split: prod.splits)

lemma inv_process:
  assumes "limiter_inv s"
  shows "limiter_inv (process s)"
proof (cases "processing s \<or> queue s = []")
  case True
  then have "process s = s" by (auto simp: process_def split: list.splits)
  with assms show ?thesis by simp
next
  case False
  then obtain fn rest where q: "queue s = fn # rest" and np: "\<not> processing s"
    by (cases "queue s") auto
  have p: "process s = s\<lparr>processing := True, queue := rest, in_flight := in_flight s @ [fn],
                  starts := starts s @ [(fn, clock s)]\<rparr>"
    using q np by (simp add: process_def)
  from assms np have i: "in_flight s = []" "timers s = []" "paced (starts s)"
      "map fst (starts s) = map fst (deliveries s)"
      "starts s = [] \<or> snd (last (starts s)) + RATE_LIMIT_DELAY \<le> clock s"
    by (auto simp: limiter_inv_def last_start_ok_last)
  show ?thesis
    unfolding p using i
    by (auto simp: limiter_inv_def last_start_ok_last paced_snoc)
qed

lemma inv_step:
  assumes "limiter_inv s" and "step e s = Some s'"
  shows "limiter_inv s'"
proof (cases e)
  case (Add i t)
  with assms(2) have t: "clock s \<le> t" and s': "s' = process (s\<lparr>clock := t, queue := queue s @ [i]\<rparr>)"
    by (auto split: if_splits)
  have "limiter_inv (s\<lparr>clock := t, queue := queue s @ [i]\<rparr>)"
    using assms(1) t by (auto simp: limiter_inv_def last_start_ok_last)
  then show ?thesis unfolding s' by (rule inv_process)
next
  case (Settle i oc t)
  with assms(2) have t: "clock s \<le> t" and m: "i \<in> set (in_flight s)"
    and s': "s' = s\<lparr>clock := t, in_flight := remove1 i (in_flight s),
                   deliveries := deliveries s @ [(i, oc)],
                   timers := timers s @ [t + RATE_LIMIT_DELAY]\<rparr>"
    by (auto split: if_splits)
  from assms(1) m have f: "in_flight s = [i]" "timers s = []" "processing s"
    by (auto simp: limiter_inv_def split: if_splits)
  show ?thesis
    unfolding s' using assms(1) f t
    by (auto simp: limiter_inv_def last_start_ok_last RATE_LIMIT_DELAY_def)
next
  case (Timeout d t)
  with assms(2) have t: "clock s \<le> t" "d \<le> t" and m: "d \<in> set (timers s)"
    and s': "s' = process (s\<lparr>clock := t, timers := remove1 d (timers s), processing := False\<rparr>)"
    by (auto split: if_splits)
  from assms(1) m have f: "in_flight s = []" "timers s = [d]" "processing s"
    by (auto simp: limiter_inv_def split: if_splits)
  have "limiter_inv (s\<lparr>clock := t, timers := remove1 d (timers s), processing := False\<rparr>)"
    using assms(1) f t by (auto simp: limiter_inv_def last_start_ok_last)
  then show ?thesis unfolding s' by (rule inv_process)
qed

lemma inv_run: "limiter_inv s \<Longrightarrow> run evs s = Some s' \<Longrightarrow> limiter_inv s'"
proof (induction evs arbitrary: s)
  case Nil
  then show ?case by simp
next
  case (Cons e es)
  then show ?case by (auto split: option.splits dest: inv_step)
qed

lemma run_append:
  "run (xs @ ys) s = (case run xs s of None \<Rightarrow> None | Some s' \<Rightarrow> run ys s')"
  by (induction xs arbitrary: s) (auto split: option.splits)

lemma process_fields:
  "map fst (starts (process s)) @ queue (process s) = map fst (starts s) @ queue s
     \<or> processing s"
  "processing s \<Longrightarrow> process s = s"
  "deliveries (process s) = deliveries s"
  by (auto simp: process_def split: list.splits)

lemma process_order:
  assumes "processing s \<longrightarrow> True"
  shows "map fst (starts (process s)) @ queue (process s) = map fst (starts s) @ queue s"
  by (auto simp: process_def split: list.splits)

lemma step_order:
  assumes "step e s = Some s'"
  shows "map fst (starts s') @ queue s' = map fst (starts s) @ queue s @ submitted [e]"
    and "deliveries s' = deliveries s @ settlements [e]"
  using assms
  by (cases e; auto simp: submitted_def settlements_def List.map_filter_def process_order
      process_fields(3) split: if_splits)+

lemma submitted_Cons: "submitted (e # es) = submitted [e] @ submitted es"
  by (simp add: submitted_def List.map_filter_def)

lemma settlements_Cons: "settlements (e # es) = settlements [e] @ settlements es"
  by (simp add: settlements_def List.map_filter_def)

lemma run_order:
  "run evs s = Some s' \<Longrightarrow>
   map fst (starts s') @ queue s' = map fst (starts s) @ queue s @ submitted evs
   \<and> deliveries s' = deliveries s @ settlements evs"
proof (induction evs arbitrary: s)
  case Nil
  then show ?case by (simp add: submitted_def settlements_def List.map_filter_def)
next
  case (Cons e es)
  then obtain s1 where s1: "step e s = Some s1" "run es s1 = Some s'"
    by (auto split: option.splits)
  from Cons.IH[OF s1(2)] step_order[OF s1(1)]
  show ?case by (simp add: submitted_Cons[of e es] settlements_Cons[of e es])
qed

lemma schedule_process: "schedule (process s) = process (schedule s)"
  by (auto simp: schedule_def process_def split: list.splits)

lemma step_erase:
  "step e s = Some s' \<Longrightarrow> step (erase e) (schedule s) = Some (schedule s')"
proof (cases e)
  case (Add i t)
  assume st: "step e s = Some s'"
  have "schedule (s\<lparr>clock := t, queue := queue s @ [i]\<rparr>)
      = (schedule s)\<lparr>clock := t, queue := queue (schedule s) @ [i]\<rparr>"
    by (simp add: schedule_def)
  with st Add show ?thesis
    by (auto simp: erase_def schedule_process split: if_splits) (simp add: schedule_def)
next
  case (Settle i oc t)
  assume "step e s = Some s'"
  with Settle show ?thesis
    by (auto simp: erase_def schedule_def split: if_splits)
next
  case (Timeout d t)
  assume st: "step e s = Some s'"
  have "schedule (s\<lparr>clock := t, timers := remove1 d (timers s), processing := False\<rparr>)
      = (schedule s)\<lparr>clock := t, timers := remove1 d (timers (schedule s)), processing := False\<rparr>"
    by (simp add: schedule_def)
  with st Timeout show ?thesis
    by (auto simp: erase_def schedule_process split: if_splits) (simp_all add: schedule_def)
qed

lemma run_erase:
  "run evs s = Some s' \<Longrightarrow> run (map erase evs) (schedule s) = Some (schedule s')"
proof (induction evs arbitrary: s)
  case Nil
  then show ?case by simp
next
  case (Cons e es)
  then obtain s1 where s1: "step e s = Some s1" "run es s1 = Some s'"
    by (auto split: option.splits)
  from step_erase[OF s1(1)] Cons.IH[OF s1(2)] show ?case by simp
qed

text \<open>
  Claim C2. In every state that a run of the limiter reaches, whatever the units, the times
  of their submission and their outcomes are: at most one unit is in flight; the starts of
  two consecutive units are at least 500 ms apart; the units are started in the order of
  their submission (the started units followed by the queue are the submitted units, so
  none is dropped) and settle in that order; what is delivered to the submitters is, unit by
  unit, the outcome of that unit; and the same events with every failure turned into a
  success give the same queue, flag, timers and starts, so a failure delays or cancels
  no unit.
\<close>

theorem rate_limiter_serialises:
  assumes "run evs new_limiter = Some s"
  shows "length (in_flight s) \<le> 1
       \<and> paced (starts s)
       \<and> map fst (starts s) @ queue s = submitted evs
       \<and> map fst (deliveries s) @ in_flight s = map fst (starts s)
       \<and> deliveries s = settlements evs
       \<and> run (map erase evs) new_limiter = Some (schedule s)"
proof -
  have i: "limiter_inv s" using inv_run[OF inv_new assms] .
  have "length (in_flight s) \<le> 1" using i by (auto simp: limiter_inv_def split: if_splits)
  moreover have "paced (starts s)" using i by (simp add: limiter_inv_def)
  moreover have "map fst (deliveries s) @ in_flight s = map fst (starts s)"
    using i by (simp add: limiter_inv_def)
  moreover from run_order[OF assms]
  have "map fst (starts s) @ queue s = submitted evs" "deliveries s = settlements evs"
    by (simp_all add: new_limiter_def)
  moreover from run_erase[OF assms]
  have "run (map erase evs) new_limiter = Some (schedule s)"
    by (simp add: schedule_def new_limiter_def)
  ultimately show ?thesis by blast
qed

text \<open>
  After a unit has settled, with either outcome, the timer is pending; when it fires, the
  head of the queue is started.
\<close>

lemma timer_starts_next:
  assumes "limiter_inv s" and "timers s = [d]" and "queue s = i # rest"
    and "clock s \<le> t" and "d \<le> t"
  shows "step (Timeout d t) s
       = Some (s\<lparr>clock := t, timers := [], processing := True, queue := rest,
                in_flight := [i], starts := starts s @ [(i, t)]\<rparr>)"
proof -
  from assms(1,2) have "in_flight s = []" by (auto simp: limiter_inv_def split: if_splits)
  with assms show ?thesis by (simp add: process_def)
qed

lemma example_limiter_run:
  "run example_events new_limiter
   = Some \<lparr> queue = [], processing = True, in_flight = [3], timers = [], clock = 1250,
            starts = [(1, 0), (2, 620), (3, 1250)],
            deliveries = [(1, Rejected), (2, Resolved)] \<rparr>"
  by (simp add: example_events_def new_limiter_def process_def RATE_LIMIT_DELAY_def)

theorem rate_limiter_serialises_witness:
  "run example_events new_limiter
   = Some \<lparr> queue = [], processing = True, in_flight = [3], timers = [], clock = 1250,
            starts = [(1, 0), (2, 620), (3, 1250)],
            deliveries = [(1, Rejected), (2, Resolved)] \<rparr>
   \<and> paced [(1, 0), (2, 620), (3, 1250)]
   \<and> submitted example_events = [1, 2, 3]
   \<and> settlements example_events = [(1, Rejected), (2, Resolved)]"
  using rate_limiter_serialises [OF example_limiter_run] example_limiter_run
  by simp

end
